theory Spec2Isabelle
  imports Main "HOL-Library.Word" "HOL-Library.Multiset"
begin

unbundle bit_operations_syntax

section \<open>Data model (CoapTypes.h, CoapError.h, CoapPacket.h)\<close>

text \<open>
  The C++ fixed-width unsigned integers are words: arithmetic wraps, shifts are
  \<open>push_bit\<close> and \<open>drop_bit\<close>, a narrowing or widening \<open>static_cast\<close> is \<open>ucast\<close>.
  A \<open>std::vector<uint8_t>\<close> is a list of bytes, and so is a (pointer, length) pair:
  the list holds exactly the \<open>length\<close> bytes the pointer designates. A \<open>size_t\<close>
  offset into such a buffer is a \<open>nat\<close>.
\<close>

type_synonym uint8_t = "8 word"
type_synonym uint16_t = "16 word"
type_synonym uint32_t = "32 word"

definition COAP_VERSION :: uint8_t where
  "COAP_VERSION = 1"

definition MAX_PAYLOAD_SIZE :: uint16_t where
  "MAX_PAYLOAD_SIZE = 1024"

definition PAYLOAD_MARKER :: uint8_t where
  "PAYLOAD_MARKER = 0xFF"

definition MAX_OPTION_VALUE_SIZE :: uint16_t where
  "MAX_OPTION_VALUE_SIZE = 1034"

datatype CoapType = CON | NON | ACK | RST

text \<open>\<open>static_cast<uint8_t>(type)\<close> and \<open>static_cast<CoapType>(bits)\<close> on a 2-bit value.\<close>

fun uint8_of_CoapType :: "CoapType \<Rightarrow> uint8_t" where
  "uint8_of_CoapType CON = 0"
| "uint8_of_CoapType NON = 1"
| "uint8_of_CoapType ACK = 2"
| "uint8_of_CoapType RST = 3"

definition CoapType_of_uint8 :: "uint8_t \<Rightarrow> CoapType" where
  "CoapType_of_uint8 b =
     (if b = 0 then CON else if b = 1 then NON else if b = 2 then ACK else RST)"

text \<open>
  \<open>enum class CoapCode : uint8_t\<close>: the parser casts any received byte to it, so a
  code is a byte; the enumerators used below are named.
\<close>

type_synonym CoapCode = uint8_t

definition EMPTY :: CoapCode where
  "EMPTY = 0"

definition GET :: CoapCode where
  "GET = 1"

definition URI_PATH :: uint16_t where
  "URI_PATH = 11"

definition CONTENT_FORMAT :: uint16_t where
  "CONTENT_FORMAT = 12"

definition URI_QUERY :: uint16_t where
  "URI_QUERY = 15"

definition getCodeClass :: "CoapCode \<Rightarrow> uint8_t" where
  "getCodeClass c = drop_bit 5 c"

definition isValidCodeClass :: "uint8_t \<Rightarrow> bool" where
  "isValidCodeClass codeClass \<longleftrightarrow> codeClass \<noteq> 1 \<and> codeClass \<noteq> 6 \<and> codeClass \<noteq> 7"

datatype CoapError =
    OK
  | DATAGRAM_TOO_SHORT
  | INVALID_VERSION
  | INVALID_TOKEN_LENGTH
  | INVALID_CODE_CLASS
  | INVALID_FORMAT
  | TOO_MANY_OPTIONS
  | OPTION_TOO_LONG
  | PAYLOAD_TOO_LARGE
  | MISSING_REQUIRED_FIELD
  | INVALID_OPTION_NUMBER
  | BUFFER_TOO_SMALL
  | OUT_OF_MEMORY
  | INVALID_ARGUMENT

record CoapOption =
  number :: uint16_t
  "value" :: "uint8_t list"

text \<open>
  \<open>token\<close> is the array \<open>uint8_t token[8]\<close>: a list of 8 bytes of which the first
  \<open>token_length\<close> are the token.
\<close>

record CoapPacket =
  version :: uint8_t
  type :: CoapType
  token_length :: uint8_t
  token :: "uint8_t list"
  code :: CoapCode
  message_id :: uint16_t
  options :: "CoapOption list"
  payload :: "uint8_t list"

text \<open>The default constructor of \<open>CoapPacket\<close>.\<close>

definition CoapPacket_new :: CoapPacket where
  "CoapPacket_new = \<lparr>version = COAP_VERSION, type = CON, token_length = 0,
                      token = replicate 8 0, code = EMPTY, message_id = 0,
                      options = [], payload = []\<rparr>"

text \<open>\<open>std::memcpy(dst, src, n)\<close> and \<open>std::memset(dst + from, 0, n)\<close> on byte arrays.\<close>

definition memcpy :: "uint8_t list \<Rightarrow> uint8_t list \<Rightarrow> nat \<Rightarrow> uint8_t list" where
  "memcpy dst src n = take n src @ drop n dst"

definition memset0 :: "uint8_t list \<Rightarrow> nat \<Rightarrow> nat \<Rightarrow> uint8_t list" where
  "memset0 dst from n = take from dst @ replicate n 0 @ drop (from + n) dst"

definition CoapPacket_clear :: "CoapPacket \<Rightarrow> CoapPacket" where
  "CoapPacket_clear p = p\<lparr>version := COAP_VERSION, type := CON, token_length := 0,
                token := replicate 8 0, code := EMPTY, message_id := 0,
                options := [], payload := []\<rparr>"

text \<open>
  \<open>CoapPacket::setToken\<close>. \<open>tokenData\<close> must hold at least \<open>length\<close> bytes (anything
  else is an out-of-bounds read in C++); the theorems about it assume so.
\<close>

definition CoapPacket_setToken :: "uint8_t list \<Rightarrow> uint8_t \<Rightarrow> CoapPacket \<Rightarrow> CoapPacket" where
  "CoapPacket_setToken tokenData len p =
     (let length = (if len > 8 then 8 else len);
          tok = memcpy (token p) tokenData (unat length);
          tok' = (if length < 8 then memset0 tok (unat length) (8 - unat length) else tok)
      in p\<lparr>token_length := length, token := tok'\<rparr>)"

section \<open>Option delta codec and integer codec\<close>

text \<open>
  \<open>CoapBuilder::encodeOptionDeltaLength\<close> writes into a 5-byte scratch array and
  returns the number of bytes written; the model returns the written bytes, whose
  number is that count.
\<close>

definition encodeOptionDeltaLength :: "uint16_t \<Rightarrow> uint16_t \<Rightarrow> uint8_t list" where
  "encodeOptionDeltaLength delta len =
     (let (hi, deltaExt) =
            (if delta < 13 then (push_bit 4 (ucast (delta AND 0x0F)) :: uint8_t, [])
             else if delta < 269 then (push_bit 4 13, [ucast (delta - 13)])
             else (let extDelta = delta - 269
                   in (push_bit 4 14, [ucast (drop_bit 8 extDelta), ucast (extDelta AND 0xFF)])));
          (lo, lengthExt) =
            (if len < 13 then (ucast (len AND 0x0F) :: uint8_t, [])
             else if len < 269 then (13, [ucast (len - 13)])
             else (let extLength = len - 269
                   in (14, [ucast (drop_bit 8 extLength), ucast (extLength AND 0xFF)])))
      in (hi OR lo) # deltaExt @ lengthExt)"

text \<open>
  \<open>CoapParser::decodeOptionDeltaLength\<close>: \<open>Inl\<close> the error, \<open>Inr\<close> the advanced
  offset and the decoded value. The result is a \<open>uint16_t\<close>, so the sum with 269
  wraps.
\<close>

definition decodeOptionDeltaLength ::
    "uint8_t list \<Rightarrow> nat \<Rightarrow> uint8_t \<Rightarrow> CoapError + (nat \<times> uint16_t)" where
  "decodeOptionDeltaLength buffer offset field =
     (if field < 13 then Inr (offset, ucast field)
      else if field = 13 then
        (if offset \<ge> length buffer then Inl DATAGRAM_TOO_SHORT
         else Inr (offset + 1, ucast (buffer ! offset) + 13))
      else if field = 14 then
        (if offset + 1 \<ge> length buffer then Inl DATAGRAM_TOO_SHORT
         else Inr (offset + 2,
                   (push_bit 8 (ucast (buffer ! offset)) OR ucast (buffer ! (offset + 1))) + 269))
      else Inl INVALID_FORMAT)"

definition encodeUint :: "uint32_t \<Rightarrow> uint8_t list" where
  "encodeUint v =
     (if v = 0 then []
      else if v \<le> 0xFF then [ucast v]
      else if v \<le> 0xFFFF then [ucast (drop_bit 8 v), ucast (v AND 0xFF)]
      else if v \<le> 0xFFFFFF then
        [ucast (drop_bit 16 v), ucast (drop_bit 8 v AND 0xFF), ucast (v AND 0xFF)]
      else [ucast (drop_bit 24 v), ucast (drop_bit 16 v AND 0xFF),
            ucast (drop_bit 8 v AND 0xFF), ucast (v AND 0xFF)])"

text \<open>The loop of \<open>CoapParser::decodeUint\<close>, from index \<open>i\<close> with accumulator \<open>v\<close>.\<close>

function decodeUint_loop :: "uint8_t list \<Rightarrow> nat \<Rightarrow> nat \<Rightarrow> uint32_t \<Rightarrow> uint32_t" where
  "decodeUint_loop data len i v =
     (if i < len \<and> i < 4 then decodeUint_loop data len (i + 1) (push_bit 8 v OR ucast (data ! i))
      else v)"
  by pat_completeness auto
termination
  by (relation "measure (\<lambda>(data, len, i, v). 4 - i)") auto

definition decodeUint :: "uint8_t list \<Rightarrow> nat \<Rightarrow> uint32_t" where
  "decodeUint data len = (if len = 0 then 0 else decodeUint_loop data len 0 0)"

section \<open>Parser (CoapParser.cpp)\<close>

text \<open>
  The \<open>while\<close> loop of \<open>CoapParser::parseOptions\<close>. The by-reference parameters
  \<open>offset\<close>, \<open>options\<close> and \<open>hasPayload\<close> are returned with the error code, in the
  state they have when the function returns.
\<close>

function parseOptions_loop ::
    "uint8_t list \<Rightarrow> nat \<Rightarrow> uint16_t \<Rightarrow> CoapOption list
       \<Rightarrow> CoapError \<times> nat \<times> CoapOption list \<times> bool" where
  "parseOptions_loop buffer offset lastOptionNumber opts =
     (if offset < length buffer then
        (if buffer ! offset = PAYLOAD_MARKER then (OK, offset + 1, opts, True)
         else
           (case decodeOptionDeltaLength buffer (offset + 1)
                   (drop_bit 4 (buffer ! offset) AND 0x0F) of
              Inl err \<Rightarrow> (err, offset + 1, opts, False)
            | Inr (offset1, delta) \<Rightarrow>
                (case decodeOptionDeltaLength buffer offset1 (buffer ! offset AND 0x0F) of
                   Inl err \<Rightarrow> (err, offset1, opts, False)
                 | Inr (offset2, len) \<Rightarrow>
                     (if offset2 + unat len > length buffer
                        then (DATAGRAM_TOO_SHORT, offset2, opts, False)
                      else if len > MAX_OPTION_VALUE_SIZE
                        then (OPTION_TOO_LONG, offset2, opts, False)
                      else parseOptions_loop buffer
                             (if len > 0 then offset2 + unat len else offset2)
                             (lastOptionNumber + delta)
                             (opts @ [\<lparr>number = lastOptionNumber + delta,
                                        value = (if len > 0
                                                 then take (unat len) (drop offset2 buffer)
                                                 else [])\<rparr>])))))
      else (OK, offset, opts, False))"
  by pat_completeness auto
termination
  by (relation "measure (\<lambda>(buffer, offset, lastOptionNumber, opts). length buffer - offset)")
     (auto simp add: decodeOptionDeltaLength_def split: if_splits)

definition parseOptions ::
    "uint8_t list \<Rightarrow> nat \<Rightarrow> CoapOption list \<Rightarrow> CoapError \<times> nat \<times> CoapOption list \<times> bool" where
  "parseOptions buffer offset opts = parseOptions_loop buffer offset 0 opts"

text \<open>
  \<open>CoapParser::parse\<close> writes into the caller's packet, so the model returns the
  error code together with the packet as the caller finds it afterwards, on every path.
\<close>

definition parse :: "uint8_t list \<Rightarrow> CoapPacket \<Rightarrow> CoapError \<times> CoapPacket" where
  "parse buffer packet0 =
     (let packet = CoapPacket_clear packet0 in
      if length buffer < 4 then (DATAGRAM_TOO_SHORT, packet)
      else
        let versionTypeToken = buffer ! 0;
            version = drop_bit 6 versionTypeToken AND 0x03
        in
        if version \<noteq> COAP_VERSION then (INVALID_VERSION, packet)
        else
          let packet1 = packet\<lparr>version := version,
                                type := CoapType_of_uint8 (drop_bit 4 versionTypeToken AND 0x03),
                                token_length := versionTypeToken AND 0x0F\<rparr>
          in
          if token_length packet1 > 8 then (INVALID_TOKEN_LENGTH, packet1)
          else
            let packet2 = packet1\<lparr>code := buffer ! 1\<rparr>;
                codeClass = getCodeClass (code packet2)
            in
            if \<not> isValidCodeClass codeClass then (INVALID_CODE_CLASS, packet2)
            else
              let packet3 = packet2\<lparr>message_id :=
                              push_bit 8 (ucast (buffer ! 2)) OR ucast (buffer ! 3)\<rparr>;
                  offset = 4;
                  tkl = unat (token_length packet3)
              in
              if token_length packet3 > 0 \<and> offset + tkl > length buffer
                then (DATAGRAM_TOO_SHORT, packet3)
              else
                let packet4 = (if token_length packet3 > 0
                               then packet3\<lparr>token := memcpy (token packet3) (drop offset buffer) tkl\<rparr>
                               else packet3);
                    offset1 = (if token_length packet3 > 0 then offset + tkl else offset);
                    (err, offset2, opts, hasPayload) =
                      (if offset1 < length buffer
                       then parseOptions buffer offset1 (options packet4)
                       else (OK, offset1, options packet4, False));
                    packet5 = packet4\<lparr>options := opts\<rparr>
                in
                if err \<noteq> OK then (err, packet5)
                else if hasPayload then
                  (if offset2 \<ge> length buffer then (INVALID_FORMAT, packet5)
                   else if length buffer - offset2 > unat MAX_PAYLOAD_SIZE
                     then (PAYLOAD_TOO_LARGE, packet5)
                   else (OK, packet5\<lparr>payload := drop offset2 buffer\<rparr>))
                else (OK, packet5))"

section \<open>Builder (CoapBuilder.cpp)\<close>

text \<open>
  The private members \<open>packet_\<close> and \<open>lastError_\<close> are the fields \<open>m_packet\<close> and
  \<open>m_lastError\<close> (an identifier cannot end with an underscore here).
\<close>

record CoapBuilder =
  m_packet :: CoapPacket
  m_lastError :: CoapError

definition CoapBuilder_new :: CoapBuilder where
  "CoapBuilder_new = \<lparr>m_packet = CoapPacket_clear CoapPacket_new, m_lastError = OK\<rparr>"

definition setType :: "CoapType \<Rightarrow> CoapBuilder \<Rightarrow> CoapBuilder" where
  "setType t b = b\<lparr>m_packet := (m_packet b)\<lparr>type := t\<rparr>\<rparr>"

definition setCode :: "CoapCode \<Rightarrow> CoapBuilder \<Rightarrow> CoapBuilder" where
  "setCode c b = b\<lparr>m_packet := (m_packet b)\<lparr>code := c\<rparr>\<rparr>"

definition setMessageId :: "uint16_t \<Rightarrow> CoapBuilder \<Rightarrow> CoapBuilder" where
  "setMessageId i b = b\<lparr>m_packet := (m_packet b)\<lparr>message_id := i\<rparr>\<rparr>"

definition setToken :: "uint8_t list \<Rightarrow> uint8_t \<Rightarrow> CoapBuilder \<Rightarrow> CoapBuilder" where
  "setToken tokenData len b = b\<lparr>m_packet := CoapPacket_setToken tokenData len (m_packet b)\<rparr>"

text \<open>The three overloads of \<open>addOption\<close>: raw bytes, string, unsigned integer.\<close>

definition addOption :: "uint16_t \<Rightarrow> uint8_t list \<Rightarrow> CoapBuilder \<Rightarrow> CoapBuilder" where
  "addOption optionNum v b =
     b\<lparr>m_packet := (m_packet b)\<lparr>options := options (m_packet b) @ [\<lparr>number = optionNum, value = v\<rparr>]\<rparr>\<rparr>"

definition addOption_string :: "uint16_t \<Rightarrow> string \<Rightarrow> CoapBuilder \<Rightarrow> CoapBuilder" where
  "addOption_string optionNum s b = addOption optionNum (map of_char s) b"

definition addOption_uint :: "uint16_t \<Rightarrow> uint32_t \<Rightarrow> CoapBuilder \<Rightarrow> CoapBuilder" where
  "addOption_uint optionNum v b = addOption optionNum (encodeUint v) b"

definition addUriPathSegment :: "string \<Rightarrow> CoapBuilder \<Rightarrow> CoapBuilder" where
  "addUriPathSegment segment b = addOption_string URI_PATH segment b"

text \<open>
  The loop \<open>while (std::getline(ss, segment, '/'))\<close> of \<open>setUriPath\<close>, on what is
  left in the stream: \<open>getline\<close> fails on an exhausted stream, and otherwise extracts
  the characters up to the next \<open>'/'\<close> and discards that delimiter.
\<close>

function setUriPath_loop :: "string \<Rightarrow> CoapBuilder \<Rightarrow> CoapBuilder" where
  "setUriPath_loop ss b =
     (if ss = [] then b
      else
        let segment = takeWhile (\<lambda>c. c \<noteq> CHR ''/'') ss;
            ss' = drop (length segment + 1) ss
        in setUriPath_loop ss' (if segment \<noteq> [] then addUriPathSegment segment b else b))"
  by pat_completeness auto
termination
  by (relation "measure (\<lambda>(ss, b). length ss)") auto

definition setUriPath :: "string \<Rightarrow> CoapBuilder \<Rightarrow> CoapBuilder" where
  "setUriPath path b =
     (if path = [] then b
      else
        let pathCopy = (if path ! 0 = CHR ''/'' then drop 1 path else path)
        in setUriPath_loop pathCopy b)"

definition addUriQuery :: "string \<Rightarrow> string \<Rightarrow> CoapBuilder \<Rightarrow> CoapBuilder" where
  "addUriQuery key v b = addOption_string URI_QUERY (key @ ''='' @ v) b"

definition setContentFormat :: "uint16_t \<Rightarrow> CoapBuilder \<Rightarrow> CoapBuilder" where
  "setContentFormat format b = addOption_uint CONTENT_FORMAT (ucast format) b"

definition setPayload :: "uint8_t list \<Rightarrow> CoapBuilder \<Rightarrow> CoapBuilder" where
  "setPayload data b = b\<lparr>m_packet := (m_packet b)\<lparr>payload := data\<rparr>\<rparr>"

definition reset :: "CoapBuilder \<Rightarrow> CoapBuilder" where
  "reset b = b\<lparr>m_packet := CoapPacket_clear (m_packet b), m_lastError := OK\<rparr>"

definition validate :: "CoapBuilder \<Rightarrow> CoapError" where
  "validate b =
     (if token_length (m_packet b) > 8 then INVALID_TOKEN_LENGTH
      else if \<not> isValidCodeClass (getCodeClass (code (m_packet b))) then INVALID_CODE_CLASS
      else if length (payload (m_packet b)) > unat MAX_PAYLOAD_SIZE then PAYLOAD_TOO_LARGE
      else if code (m_packet b) = EMPTY \<and>
              (token_length (m_packet b) \<noteq> 0 \<or> options (m_packet b) \<noteq> [] \<or>
               payload (m_packet b) \<noteq> [])
        then INVALID_FORMAT
      else OK)"

text \<open>
  \<open>sortOptions\<close> calls \<open>std::sort\<close> with the comparator \<open>a.number < b.number\<close>.
  \<open>std::sort\<close> belongs to the C++ standard library, not to this repository, so it is a
  parameter \<open>srt\<close> of the model. What the C++ standard promises of it is
  \<open>std_sort_post\<close>: the range is a permutation of what it was and is ordered by the
  comparator. The standard does not promise that equivalent elements keep their order
  (that is \<open>std::stable_sort\<close>).
\<close>

type_synonym std_sort = "(CoapOption \<Rightarrow> CoapOption \<Rightarrow> bool) \<Rightarrow> CoapOption list \<Rightarrow> CoapOption list"

definition number_less :: "CoapOption \<Rightarrow> CoapOption \<Rightarrow> bool" where
  "number_less a b \<longleftrightarrow> number a < number b"

definition std_sort_post :: "std_sort \<Rightarrow> bool" where
  "std_sort_post srt \<longleftrightarrow>
     (\<forall>xs. mset (srt number_less xs) = mset xs \<and>
           sorted_wrt (\<lambda>a b. \<not> number_less b a) (srt number_less xs))"

definition sortOptions :: "std_sort \<Rightarrow> CoapBuilder \<Rightarrow> CoapBuilder" where
  "sortOptions srt b =
     b\<lparr>m_packet := (m_packet b)\<lparr>options := srt number_less (options (m_packet b))\<rparr>\<rparr>"

text \<open>The \<open>for\<close> loop of \<open>packOptions\<close> over the options that are left.\<close>

fun packOptions_loop ::
    "CoapOption list \<Rightarrow> uint16_t \<Rightarrow> uint8_t list \<Rightarrow> CoapError \<times> uint8_t list" where
  "packOptions_loop [] lastOptionNumber buffer = (OK, buffer)"
| "packOptions_loop (opt # rest) lastOptionNumber buffer =
     (let delta = number opt - lastOptionNumber;
          len = (of_nat (length (value opt)) :: uint16_t)
      in
      if len > MAX_OPTION_VALUE_SIZE then (OPTION_TOO_LONG, buffer)
      else
        let buffer1 = buffer @ encodeOptionDeltaLength delta len;
            buffer2 = (if len > 0 then buffer1 @ value opt else buffer1)
        in packOptions_loop rest (number opt) buffer2)"

definition packOptions :: "CoapBuilder \<Rightarrow> CoapError \<times> uint8_t list" where
  "packOptions b = packOptions_loop (options (m_packet b)) 0 []"

text \<open>
  \<open>build\<close> and \<open>buildBuffer\<close> return the error code, the builder (its options are
  sorted and its last error is set) and the caller's out-parameter as the call leaves
  it.
\<close>

definition build :: "std_sort \<Rightarrow> CoapBuilder \<Rightarrow> CoapPacket \<Rightarrow> CoapError \<times> CoapBuilder \<times> CoapPacket" where
  "build srt b packet =
     (let err = validate b in
      if err \<noteq> OK then (err, b\<lparr>m_lastError := err\<rparr>, packet)
      else
        let b1 = sortOptions srt b
        in (OK, b1\<lparr>m_lastError := OK\<rparr>, m_packet b1))"

definition buildBuffer ::
    "std_sort \<Rightarrow> CoapBuilder \<Rightarrow> uint8_t list \<Rightarrow> CoapError \<times> CoapBuilder \<times> uint8_t list" where
  "buildBuffer srt b buffer =
     (let err = validate b in
      if err \<noteq> OK then (err, b\<lparr>m_lastError := err\<rparr>, buffer)
      else
        let b1 = sortOptions srt b;
            p = m_packet b1;
            byte0 = push_bit 6 (COAP_VERSION AND 0x03)
                      OR push_bit 4 (uint8_of_CoapType (type p) AND 0x03)
                      OR (token_length p AND 0x0F);
            header = [byte0, code p, ucast (drop_bit 8 (message_id p)),
                      ucast (message_id p AND 0xFF)];
            buffer1 = (if token_length p > 0
                       then header @ take (unat (token_length p)) (token p)
                       else header)
        in
        if options p \<noteq> [] \<and> fst (packOptions b1) \<noteq> OK
          then (fst (packOptions b1), b1\<lparr>m_lastError := fst (packOptions b1)\<rparr>, buffer1)
        else
          let buffer2 = (if options p \<noteq> [] then buffer1 @ snd (packOptions b1) else buffer1);
              buffer3 = (if payload p \<noteq> [] then buffer2 @ [PAYLOAD_MARKER] @ payload p
                         else buffer2)
          in (OK, b1\<lparr>m_lastError := OK\<rparr>, buffer3))"

section \<open>Definitions for the statements and proofs\<close>

text \<open>
  Nothing below is part of the program. \<open>nibble_of\<close> and \<open>ext_of\<close> name the nibble and
  the extension bytes that \<open>encodeOptionDeltaLength\<close> writes for one value;
  \<open>packed_options\<close> is the byte sequence that \<open>packOptions\<close> appends for a list of options
  whose values fit; \<open>header_packet\<close> and \<open>parse_finish\<close> name the two halves of
  \<open>parse\<close>: the packet once header and token are read, and the steps after
  \<open>parseOptions\<close> has returned.
\<close>

definition nibble_of :: "uint16_t \<Rightarrow> uint8_t" where
  "nibble_of v = (if v < 13 then ucast (v AND 0x0F) else if v < 269 then 13 else 14)"

definition ext_of :: "uint16_t \<Rightarrow> uint8_t list" where
  "ext_of v = (if v < 13 then [] else if v < 269 then [ucast (v - 13)]
               else [ucast (drop_bit 8 (v - 269)), ucast ((v - 269) AND 0xFF)])"

fun packed_options :: "CoapOption list \<Rightarrow> uint16_t \<Rightarrow> uint8_t list" where
  "packed_options [] lastNum = []"
| "packed_options (opt # rest) lastNum =
     encodeOptionDeltaLength (number opt - lastNum) (of_nat (length (value opt)))
       @ value opt @ packed_options rest (number opt)"

definition header_packet :: "uint8_t list \<Rightarrow> CoapPacket" where
  "header_packet buffer =
     \<lparr>version = COAP_VERSION,
      type = CoapType_of_uint8 (drop_bit 4 (buffer ! 0) AND 0x03),
      token_length = buffer ! 0 AND 0x0F,
      token = memcpy (replicate 8 0) (drop 4 buffer) (unat (buffer ! 0 AND 0x0F)),
      code = buffer ! 1,
      message_id = push_bit 8 (ucast (buffer ! 2)) OR ucast (buffer ! 3),
      options = [], payload = []\<rparr>"

definition parse_finish ::
    "uint8_t list \<Rightarrow> CoapPacket \<Rightarrow> CoapError \<times> nat \<times> CoapOption list \<times> bool
       \<Rightarrow> CoapError \<times> CoapPacket" where
  "parse_finish buffer packet4 r =
     (case r of (err, offset2, opts, hasPayload) \<Rightarrow>
        if err \<noteq> OK then (err, packet4\<lparr>options := opts\<rparr>)
        else if hasPayload then
          (if offset2 \<ge> length buffer then (INVALID_FORMAT, packet4\<lparr>options := opts\<rparr>)
           else if length buffer - offset2 > unat MAX_PAYLOAD_SIZE
             then (PAYLOAD_TOO_LARGE, packet4\<lparr>options := opts\<rparr>)
           else (OK, packet4\<lparr>options := opts, payload := drop offset2 buffer\<rparr>))
        else (OK, packet4\<lparr>options := opts\<rparr>))"

text \<open>
  \<open>spec_field_value\<close> is the value of a delta or length field as the specification of
  the option header reads it, from the nibble and the bytes that follow it: the nibble
  itself below 13, one extension byte plus 13 for the nibble 13, two big-endian extension
  bytes plus 269 for the nibble 14, up to 65804. It is a natural number, where
  \<open>decodeOptionDeltaLength\<close> computes in \<open>uint16_t\<close>.
\<close>

definition spec_field_value :: "uint8_t \<Rightarrow> uint8_t list \<Rightarrow> nat option" where
  "spec_field_value nibble ext =
     (if nibble < 13 then Some (unat nibble)
      else if nibble = 13 then
        (case ext of e # _ \<Rightarrow> Some (unat e + 13) | _ \<Rightarrow> None)
      else if nibble = 14 then
        (case ext of e1 # e2 # _ \<Rightarrow> Some (256 * unat e1 + unat e2 + 269) | _ \<Rightarrow> None)
      else None)"

text \<open>
  \<open>stops_at buffer n\<close>: an iteration of the loop of \<open>parseOptions\<close> that starts at
  offset \<open>n\<close> returns without decoding an option, because the byte there is the payload
  marker or because one of the four checks on the option fails.
\<close>

definition stops_at :: "uint8_t list \<Rightarrow> nat \<Rightarrow> bool" where
  "stops_at buffer n \<longleftrightarrow>
     n < length buffer \<and>
     (buffer ! n = PAYLOAD_MARKER \<or>
      (case decodeOptionDeltaLength buffer (n + 1) (drop_bit 4 (buffer ! n) AND 0x0F) of
         Inl e \<Rightarrow> True
       | Inr (o1, delta) \<Rightarrow>
           (case decodeOptionDeltaLength buffer o1 (buffer ! n AND 0x0F) of
              Inl e \<Rightarrow> True
            | Inr (o2, len) \<Rightarrow> o2 + unat len > length buffer \<or> len > MAX_OPTION_VALUE_SIZE)))"

text \<open>
  Two sorting functions that meet \<open>std_sort_post\<close>, to instantiate the parameter of
  \<open>sortOptions\<close>. In \<open>insertion_sort\<close> an element passes only the elements that are
  strictly smaller, so options with equal numbers keep the order in which they were
  added; the common implementations of \<open>std::sort\<close> behave so on short ranges, where
  they run an insertion sort (libstdc++ on ranges of at most 16 elements). In \<open>reversing_sort\<close> an element also passes the elements
  that compare equal to it, so options with equal numbers come out in reverse order.
\<close>

text \<open>
  What a stable sort adds to \<open>std_sort_post\<close>: the elements with any one number are
  in the order in which they were. \<open>std::stable_sort\<close> promises it; \<open>std::sort\<close> does
  not.
\<close>

definition std_sort_stable :: "std_sort \<Rightarrow> bool" where
  "std_sort_stable srt \<longleftrightarrow>
     (\<forall>xs k. filter (\<lambda>opt. number opt = k) (srt number_less xs)
               = filter (\<lambda>opt. number opt = k) xs)"

fun insert_by ::
    "(CoapOption \<Rightarrow> CoapOption \<Rightarrow> bool) \<Rightarrow> CoapOption \<Rightarrow> CoapOption list \<Rightarrow> CoapOption list" where
  "insert_by cmp x [] = [x]"
| "insert_by cmp x (y # ys) = (if cmp y x then y # insert_by cmp x ys else x # y # ys)"

definition insertion_sort :: std_sort where
  "insertion_sort cmp xs = foldr (insert_by cmp) xs []"

fun insert_after ::
    "(CoapOption \<Rightarrow> CoapOption \<Rightarrow> bool) \<Rightarrow> CoapOption \<Rightarrow> CoapOption list \<Rightarrow> CoapOption list" where
  "insert_after cmp x [] = [x]"
| "insert_after cmp x (y # ys) = (if cmp x y then x # y # ys else y # insert_after cmp x ys)"

definition reversing_sort :: std_sort where
  "reversing_sort cmp xs = foldr (insert_after cmp) xs []"

text \<open>
  A message that meets every invariant of the data model and sits on the boundaries:
  option values of 0, 12, 13, 268, 269 and 1034 bytes, added out of order and with a
  repeated number, and a payload of 1024 bytes.
\<close>

definition example_message :: CoapPacket where
  "example_message =
     \<lparr>version = COAP_VERSION, type = NON, token_length = 3,
      token = [1, 2, 3, 0, 0, 0, 0, 0], code = 69, message_id = 0xBEEF,
      options = [\<lparr>number = 15, value = replicate 13 0x61\<rparr>,
                 \<lparr>number = 11, value = replicate 12 0x62\<rparr>,
                 \<lparr>number = 11, value = []\<rparr>,
                 \<lparr>number = 60, value = replicate 269 0\<rparr>,
                 \<lparr>number = 12, value = replicate 268 1\<rparr>,
                 \<lparr>number = 35, value = replicate 1034 2\<rparr>],
      payload = replicate 1024 0x55\<rparr>"

declare parseOptions_loop.simps [simp del]

section \<open>Bytes and words\<close>

lemma decodeUint_loop_unfold4:
  "decodeUint_loop [a] (Suc 0) 0 0 = ucast a"
  "decodeUint_loop [a,b] (Suc (Suc 0)) 0 0 = push_bit 8 (ucast a) OR ucast b"
  "decodeUint_loop [a,b,c] (Suc (Suc (Suc 0))) 0 0
     = push_bit 8 (push_bit 8 (ucast a) OR ucast b) OR ucast c"
  "decodeUint_loop [a,b,c,d] (Suc (Suc (Suc (Suc 0)))) 0 0
     = push_bit 8 (push_bit 8 (push_bit 8 (ucast a) OR ucast b) OR ucast c) OR ucast d"
  by (simp_all add: numeral_eq_Suc)

lemma xFF_mask: "(0xFF :: 'a::len word) = mask 8"
  by (simp add: mask_eq_exp_minus_1)

lemma and_xFF: "(v :: 'a::len word) AND 0xFF = take_bit 8 v"
  by (simp add: xFF_mask take_bit_eq_mask)

lemma x0F_mask: "(0x0F :: 'a::len word) = mask 4"
  by (simp add: mask_eq_exp_minus_1)

lemma and_x0F: "(v :: 'a::len word) AND 0x0F = take_bit 4 v"
  by (simp add: x0F_mask take_bit_eq_mask)

lemma x03_mask: "(0x03 :: 'a::len word) = mask 2"
  by (simp add: mask_eq_exp_minus_1)

lemma and_x03: "(v :: 'a::len word) AND 0x03 = take_bit 2 v"
  by (simp add: x03_mask take_bit_eq_mask)

lemma ucast_byte: "ucast (ucast (v :: 'a::len word) :: uint8_t) = (take_bit 8 v :: 'a word)"
  by (rule bit_word_eqI) (auto simp add: bit_simps)

lemma byte_cat:
  "push_bit 8 (take_bit k (drop_bit 8 v)) OR take_bit 8 v = take_bit (k + 8) (v :: 'a::len word)"
proof (rule bit_word_eqI)
  fix n assume "n < LENGTH('a)"
  show "bit (push_bit 8 (take_bit k (drop_bit 8 v)) OR take_bit 8 v) n = bit (take_bit (k + 8) v) n"
    using \<open>n < LENGTH('a)\<close> by (cases "n < 8") (auto simp add: bit_simps)
qed

lemma take_bit_word_lt: "(v :: 'a::len word) < 2 ^ k \<Longrightarrow> take_bit k v = v"
  by (simp add: take_bit_eq_mask less_mask_eq)

lemma uint_bytes1: "(v::uint32_t) \<le> 0xFF \<Longrightarrow> ucast (ucast v :: uint8_t) = v"
proof -
  assume "v \<le> 0xFF"
  then have lt: "v < 2 ^ 8" by (simp add: word_le_nat_alt word_less_nat_alt)
  show ?thesis
    by (simp add: ucast_byte take_bit_word_lt [OF lt])
qed

lemma uint_bytes2: "(v::uint32_t) \<le> 0xFFFF \<Longrightarrow>
   push_bit 8 (ucast (ucast (drop_bit 8 v) :: uint8_t)) OR ucast (ucast (v AND 0xFF) :: uint8_t) = v"
proof -
  assume "v \<le> 0xFFFF"
  then have lt: "v < 2 ^ 16" by (simp add: word_le_nat_alt word_less_nat_alt)
  have "push_bit 8 (take_bit 8 (drop_bit 8 v)) OR take_bit 8 v = take_bit 16 v"
    using byte_cat [of 8 v] by simp
  then show ?thesis
    by (simp add: ucast_byte and_xFF take_bit_word_lt [OF lt])
qed

lemma uint_bytes3: "(v::uint32_t) \<le> 0xFFFFFF \<Longrightarrow>
   push_bit 8 (push_bit 8 (ucast (ucast (drop_bit 16 v) :: uint8_t))
                OR ucast (ucast (drop_bit 8 v AND 0xFF) :: uint8_t))
     OR ucast (ucast (v AND 0xFF) :: uint8_t) = v"
proof -
  assume "v \<le> 0xFFFFFF"
  then have lt: "v < 2 ^ 24" by (simp add: word_le_nat_alt word_less_nat_alt)
  have "push_bit 8 (take_bit 8 (drop_bit 8 (drop_bit 8 v))) OR take_bit 8 (drop_bit 8 v)
          = take_bit 16 (drop_bit 8 v)"
    using byte_cat [of 8 "drop_bit 8 v"] by simp
  moreover have "push_bit 8 (take_bit 16 (drop_bit 8 v)) OR take_bit 8 v = take_bit 24 v"
    using byte_cat [of 16 v] by simp
  ultimately show ?thesis
    by (simp add: ucast_byte and_xFF take_bit_word_lt [OF lt])
qed

lemma uint_bytes4: 
  "push_bit 8 (push_bit 8 (push_bit 8 (ucast (ucast (drop_bit 24 v) :: uint8_t))
                OR ucast (ucast (drop_bit 16 v AND 0xFF) :: uint8_t))
                OR ucast (ucast (drop_bit 8 v AND 0xFF) :: uint8_t))
     OR ucast (ucast (v AND 0xFF) :: uint8_t) = (v::uint32_t)"
proof -
  have "push_bit 8 (take_bit 8 (drop_bit 8 (drop_bit 16 v))) OR take_bit 8 (drop_bit 16 v)
          = take_bit 16 (drop_bit 16 v)"
    using byte_cat [of 8 "drop_bit 16 v"] by simp
  moreover have "push_bit 8 (take_bit 16 (drop_bit 8 (drop_bit 8 v))) OR take_bit 8 (drop_bit 8 v)
          = take_bit 24 (drop_bit 8 v)"
    using byte_cat [of 16 "drop_bit 8 v"] by simp
  moreover have "push_bit 8 (take_bit 24 (drop_bit 8 v)) OR take_bit 8 v = take_bit 32 v"
    using byte_cat [of 24 v] by simp
  ultimately show ?thesis
    by (simp add: ucast_byte and_xFF take_bit_word_eq_self)
qed

section \<open>The unsigned integer codec\<close>

lemma decodeUint_encodeUint_eq:
  "decodeUint (encodeUint v) (length (encodeUint v)) = v"
proof -
  consider "v = 0" | "v \<noteq> 0" "v \<le> 0xFF" | "\<not> v \<le> 0xFF" "v \<le> 0xFFFF"
    | "\<not> v \<le> 0xFFFF" "v \<le> 0xFFFFFF" | "\<not> v \<le> 0xFFFFFF"
    by blast
  then show ?thesis
  proof cases
    case 1
    then show ?thesis by (simp add: decodeUint_def encodeUint_def)
  next
    case 2
    then have enc: "encodeUint v = [ucast v]"
      by (simp add: encodeUint_def)
    have "decodeUint_loop [ucast v] (Suc 0) 0 0 = v"
      by (simp only: decodeUint_loop_unfold4 uint_bytes1 [OF 2(2)])
    then show ?thesis
      by (simp add: decodeUint_def enc del: decodeUint_loop.simps)
  next
    case 3
    then have "v \<noteq> 0" by auto
    with 3 have enc: "encodeUint v = [ucast (drop_bit 8 v), ucast (v AND 0xFF)]"
      by (simp add: encodeUint_def)
    have "decodeUint_loop [ucast (drop_bit 8 v), ucast (v AND 0xFF)] (Suc (Suc 0)) 0 0 = v"
      by (simp only: decodeUint_loop_unfold4 uint_bytes2 [OF 3(2)])
    then show ?thesis
      by (simp add: decodeUint_def enc del: decodeUint_loop.simps)
  next
    case 4
    then have "v \<noteq> 0" "\<not> v \<le> 0xFF" by (auto simp: word_le_nat_alt)
    with 4 have enc: "encodeUint v =
        [ucast (drop_bit 16 v), ucast (drop_bit 8 v AND 0xFF), ucast (v AND 0xFF)]"
      by (simp add: encodeUint_def)
    have "decodeUint_loop
            [ucast (drop_bit 16 v), ucast (drop_bit 8 v AND 0xFF), ucast (v AND 0xFF)]
            (Suc (Suc (Suc 0))) 0 0 = v"
      by (simp only: decodeUint_loop_unfold4 uint_bytes3 [OF 4(2)])
    then show ?thesis
      by (simp add: decodeUint_def enc del: decodeUint_loop.simps)
  next
    case 5
    then have "v \<noteq> 0" "\<not> v \<le> 0xFF" "\<not> v \<le> 0xFFFF" by (auto simp: word_le_nat_alt)
    with 5 have enc: "encodeUint v =
        [ucast (drop_bit 24 v), ucast (drop_bit 16 v AND 0xFF),
         ucast (drop_bit 8 v AND 0xFF), ucast (v AND 0xFF)]"
      by (simp add: encodeUint_def)
    have "decodeUint_loop
            [ucast (drop_bit 24 v), ucast (drop_bit 16 v AND 0xFF),
             ucast (drop_bit 8 v AND 0xFF), ucast (v AND 0xFF)]
            (Suc (Suc (Suc (Suc 0)))) 0 0 = v"
      by (simp only: decodeUint_loop_unfold4 uint_bytes4)
    then show ?thesis
      by (simp add: decodeUint_def enc del: decodeUint_loop.simps)
  qed
qed

text \<open>
  C10. For every 32-bit unsigned integer \<open>v\<close>, \<open>decodeUint\<close> applied to the bytes that
  \<open>encodeUint v\<close> produces, with their number as length, returns \<open>v\<close>; \<open>encodeUint 0\<close>
  is the empty sequence and \<open>decodeUint\<close> of the empty sequence is 0.
\<close>

theorem decodeUint_encodeUint:
  "decodeUint (encodeUint v) (length (encodeUint v)) = v \<and>
   encodeUint 0 = [] \<and> decodeUint [] 0 = 0"
  using decodeUint_encodeUint_eq [of v] by (simp add: encodeUint_def decodeUint_def)

theorem decodeUint_encodeUint_witness:
  "decodeUint (encodeUint 0x01020304) (length (encodeUint 0x01020304)) = 0x01020304 \<and>
   decodeUint (encodeUint 0xFFFF) (length (encodeUint 0xFFFF)) = 0xFFFF"
  using decodeUint_encodeUint [of "0x01020304"] decodeUint_encodeUint [of "0xFFFF"]
  by simp

section \<open>The option delta and length codec\<close>

lemma encodeOptionDeltaLength_alt:
  "encodeOptionDeltaLength d l = (push_bit 4 (nibble_of d) OR nibble_of l) # ext_of d @ ext_of l"
  by (simp add: encodeOptionDeltaLength_def nibble_of_def ext_of_def Let_def)

lemma nibble_of_small:
  assumes "v < 13"
  shows "nibble_of v = ucast v" and "nibble_of v < 13"
proof -
  from assms have "v < 2 ^ 4" by (simp add: word_less_nat_alt)
  then have "take_bit 4 v = v" by (rule take_bit_word_lt)
  then show eq: "nibble_of v = ucast v"
    using assms by (simp add: nibble_of_def and_x0F)
  have "unat (ucast v :: uint8_t) = unat v"
    using assms by (simp add: unsigned_ucast_eq take_bit_nat_eq_self word_less_nat_alt)
  then show "nibble_of v < 13"
    using assms by (simp add: eq word_less_nat_alt)
qed

lemma nibble_of_lt16: "nibble_of v < 16"
proof (cases "v < 13")
  case True
  from nibble_of_small(2) [OF this] show ?thesis by (simp add: word_less_nat_alt)
next
  case False
  then show ?thesis by (simp add: nibble_of_def)
qed

lemma nibble_of_neq15: "nibble_of v \<noteq> 15"
proof (cases "v < 13")
  case True
  from nibble_of_small(2) [OF this] show ?thesis by (auto simp add: word_less_nat_alt)
next
  case False
  then show ?thesis by (simp add: nibble_of_def)
qed

lemma nibbles_take_bit:
  "drop_bit 4 (push_bit 4 (take_bit 4 a) OR take_bit 4 b) AND 0x0F = take_bit 4 (a :: uint8_t)"
  "(push_bit 4 (take_bit 4 a) OR take_bit 4 b) AND 0x0F = take_bit 4 (b :: uint8_t)"
  by (rule bit_word_eqI; auto simp add: bit_simps and_x0F)+

lemma nibble_hi: 
  fixes a b :: uint8_t
  assumes "a < 16" "b < 16" 
  shows "drop_bit 4 (push_bit 4 a OR b) AND 0x0F = a" and "(push_bit 4 a OR b) AND 0x0F = b"
proof -
  have "take_bit 4 a = a" "take_bit 4 b = b"
    using assms by (simp_all add: take_bit_word_lt)
  then show "drop_bit 4 (push_bit 4 a OR b) AND 0x0F = a" and "(push_bit 4 a OR b) AND 0x0F = b"
    using nibbles_take_bit [of a b] by simp_all
qed

lemma header_not_marker: "push_bit 4 (nibble_of d) OR nibble_of l \<noteq> PAYLOAD_MARKER"
proof
  assume eq: "push_bit 4 (nibble_of d) OR nibble_of l = PAYLOAD_MARKER"
  have "drop_bit 4 (push_bit 4 (nibble_of d) OR nibble_of l) AND 0x0F = nibble_of d"
    by (rule nibble_hi(1) [OF nibble_of_lt16 nibble_of_lt16])
  then have "drop_bit 4 PAYLOAD_MARKER AND 0x0F = nibble_of d"
    unfolding eq .
  then show False
    using nibble_of_neq15 [of d] by (simp add: PAYLOAD_MARKER_def)
qed

lemma ext1: 
  fixes v :: uint16_t
  assumes "\<not> v < 13" "v < 269"
  shows "ucast (ucast (v - 13) :: uint8_t) + 13 = v"
proof -
  have "v - 13 < 2 ^ 8" using assms by unat_arith
  then have "take_bit 8 (v - 13) = v - 13" by (rule take_bit_word_lt)
  then show ?thesis by (simp add: ucast_byte)
qed

lemma ext2: 
  fixes e :: uint16_t
  shows "push_bit 8 (ucast (ucast (drop_bit 8 e) :: uint8_t)) OR ucast (ucast (e AND 0xFF) :: uint8_t) = e"
proof -
  have "push_bit 8 (take_bit 8 (drop_bit 8 e)) OR take_bit 8 e = take_bit 16 e"
    using byte_cat [of 8 e] by simp
  then show ?thesis by (simp add: ucast_byte and_xFF take_bit_word_eq_self)
qed

lemma decode_ext_of:
  "decodeOptionDeltaLength (pre @ ext_of v @ rest) (length pre) (nibble_of v)
     = Inr (length pre + length (ext_of v), v)"
proof -
  consider "v < 13" | "\<not> v < 13" "v < 269" | "\<not> v < 269" by blast
  then show ?thesis
  proof cases
    case 1
    have "take_bit 8 v = v" using 1 by (simp add: take_bit_word_lt word_less_nat_alt)
    then have "ucast (ucast v :: uint8_t) = v" by (simp add: ucast_byte)
    then show ?thesis
      using 1 nibble_of_small [OF 1] by (simp add: decodeOptionDeltaLength_def ext_of_def)
  next
    case 2
    then show ?thesis
      by (simp add: decodeOptionDeltaLength_def ext_of_def nibble_of_def ext1 nth_append)
  next
    case 3
    then have "\<not> v < 13" by (simp add: word_less_nat_alt)
    with 3 show ?thesis
      using ext2 [of "v - 269"]
      by (simp add: decodeOptionDeltaLength_def ext_of_def nibble_of_def nth_append)
  qed
qed

lemma length_ext_of: "length (ext_of v) = (if v < 13 then 0 else if v < 269 then 1 else 2)"
  by (simp add: ext_of_def)

text \<open>
  C2, as the code has it. For every 16-bit delta \<open>d\<close> and length \<open>l\<close> (so for 0, 12,
  13, 268 and 269), decoding the bytes of \<open>encodeOptionDeltaLength d l\<close> the way
  \<open>parseOptions\<close> does (high nibble of the first byte and the delta extension, then low
  nibble and the length extension) returns \<open>d\<close> and \<open>l\<close> and consumes exactly the bytes
  written. The encoding is one shared header byte plus, for each of the two values, no
  extension byte below 13, one below 269 and two from 269 on: 1, 1, 2, 2, 3 bytes for
  0, 12, 13, 268, 269 when the other value is 0. The parameters are \<open>uint16_t\<close>, so
  65535 is the largest value there is, and it takes 3 bytes.
\<close>

theorem option_delta_length_roundtrip:
  "decodeOptionDeltaLength (encodeOptionDeltaLength d l) 1
       (drop_bit 4 (encodeOptionDeltaLength d l ! 0) AND 0x0F)
     = Inr (1 + (if d < 13 then 0 else if d < 269 then 1 else 2), d) \<and>
   decodeOptionDeltaLength (encodeOptionDeltaLength d l)
       (1 + (if d < 13 then 0 else if d < 269 then 1 else 2))
       (encodeOptionDeltaLength d l ! 0 AND 0x0F)
     = Inr (length (encodeOptionDeltaLength d l), l) \<and>
   length (encodeOptionDeltaLength d l)
     = 1 + (if d < 13 then 0 else if d < 269 then 1 else 2)
         + (if l < 13 then 0 else if l < 269 then 1 else 2) \<and>
   map (\<lambda>v. length (encodeOptionDeltaLength v 0)) [0, 12, 13, 268, 269] = [1, 1, 2, 2, 3] \<and>
   map (\<lambda>v. length (encodeOptionDeltaLength 0 v)) [0, 12, 13, 268, 269] = [1, 1, 2, 2, 3]"
proof -
  define hdr where "hdr = push_bit 4 (nibble_of d) OR nibble_of l"
  have enc: "encodeOptionDeltaLength d l = hdr # ext_of d @ ext_of l"
    by (simp add: encodeOptionDeltaLength_alt hdr_def)
  have nib: "drop_bit 4 hdr AND 0x0F = nibble_of d" "hdr AND 0x0F = nibble_of l"
    unfolding hdr_def by (rule nibble_hi [OF nibble_of_lt16 nibble_of_lt16])+
  have d1: "decodeOptionDeltaLength (hdr # ext_of d @ ext_of l) 1 (nibble_of d)
              = Inr (1 + length (ext_of d), d)"
    using decode_ext_of [of "[hdr]" d "ext_of l"] by simp
  have d2: "decodeOptionDeltaLength (hdr # ext_of d @ ext_of l) (1 + length (ext_of d)) (nibble_of l)
              = Inr (length (hdr # ext_of d @ ext_of l), l)"
    using decode_ext_of [of "hdr # ext_of d" l "[]"] by simp
  have sizes: "map (\<lambda>v. length (encodeOptionDeltaLength v 0)) [0, 12, 13, 268, 269] = [1, 1, 2, 2, 3]"
      "map (\<lambda>v. length (encodeOptionDeltaLength 0 v)) [0, 12, 13, 268, 269] = [1, 1, 2, 2, 3]"
    by (simp_all add: encodeOptionDeltaLength_def)
  have c1: "decodeOptionDeltaLength (encodeOptionDeltaLength d l) 1
       (drop_bit 4 (encodeOptionDeltaLength d l ! 0) AND 0x0F)
     = Inr (1 + (if d < 13 then 0 else if d < 269 then 1 else 2), d)"
    unfolding enc by (simp only: nth_Cons_0 nib d1 length_ext_of)
  have c2: "decodeOptionDeltaLength (encodeOptionDeltaLength d l)
       (1 + (if d < 13 then 0 else if d < 269 then 1 else 2))
       (encodeOptionDeltaLength d l ! 0 AND 0x0F)
     = Inr (length (encodeOptionDeltaLength d l), l)"
    unfolding enc by (simp only: nth_Cons_0 nib d2 length_ext_of [symmetric])
  have c3: "length (encodeOptionDeltaLength d l)
     = 1 + (if d < 13 then 0 else if d < 269 then 1 else 2)
         + (if l < 13 then 0 else if l < 269 then 1 else 2)"
    by (simp add: enc length_ext_of)
  from c1 c2 c3 sizes show ?thesis by blast
qed

theorem option_delta_length_roundtrip_witness:
  "decodeOptionDeltaLength (encodeOptionDeltaLength 269 1034) 1
     (drop_bit 4 (encodeOptionDeltaLength 269 1034 ! 0) AND 0x0F) = Inr (3, 269) \<and>
   decodeOptionDeltaLength (encodeOptionDeltaLength 269 1034) 3
     (encodeOptionDeltaLength 269 1034 ! 0 AND 0x0F) = Inr (5, 1034) \<and>
   length (encodeOptionDeltaLength 269 1034) = 5"
proof -
  have "(1 :: nat) + (if (269 :: uint16_t) < 13 then 0 else if (269 :: uint16_t) < 269 then 1 else 2) = 3"
    by simp
  moreover have "length (encodeOptionDeltaLength 269 1034) = 5"
    using option_delta_length_roundtrip [of 269 1034] by simp
  ultimately show ?thesis
    using option_delta_length_roundtrip [of 269 1034] by (simp only:)
qed

text \<open>
  65804 is not a 16-bit value: converted to the parameter type it is 268, which is
  encoded in 2 bytes, not 4, and read back as 268. On the decoding side the largest
  two-byte extension, \<open>0xFFFF\<close>, gives \<open>65535 + 269\<close> cut to 16 bits, which is 268 again.
\<close>

theorem option_delta_length_65804:
  "encodeOptionDeltaLength (of_nat 65804) 0 = [0xD0, 0xFF] \<and>
   length (encodeOptionDeltaLength (of_nat 65804) 0) \<noteq> 4 \<and>
   decodeOptionDeltaLength [0xD0, 0xFF] 1 (drop_bit 4 0xD0 AND 0x0F) = Inr (2, 268) \<and>
   unat (268 :: uint16_t) \<noteq> 65804 \<and>
   decodeOptionDeltaLength [0xE0, 0xFF, 0xFF] 1 14 = Inr (3, 268)"
  by (simp add: encodeOptionDeltaLength_def decodeOptionDeltaLength_def)

section \<open>Parsing what the builder packs\<close>

lemma unat_of_nat_len:
  "n \<le> 1034 \<Longrightarrow> unat (of_nat n :: uint16_t) = n"
  by (simp add: unat_of_nat)

lemma len_le_max: "n \<le> 1034 \<Longrightarrow> \<not> (of_nat n :: uint16_t) > MAX_OPTION_VALUE_SIZE"
  by (simp add: MAX_OPTION_VALUE_SIZE_def word_less_nat_alt unat_of_nat_len)

lemma len_pos_iff: "n \<le> 1034 \<Longrightarrow> (of_nat n :: uint16_t) > 0 \<longleftrightarrow> n > 0"
  by (simp add: word_less_nat_alt unat_of_nat_len)

lemma parse_one_option:
  assumes len: "length v \<le> 1034"
    and buf: "buffer = pre @ encodeOptionDeltaLength d (of_nat (length v)) @ v @ rest"
  shows "parseOptions_loop buffer (length pre) lastNum acc
           = parseOptions_loop buffer
               (length pre + length (encodeOptionDeltaLength d (of_nat (length v))) + length v)
               (lastNum + d) (acc @ [\<lparr>number = lastNum + d, value = v\<rparr>])"
proof -
  define l :: uint16_t where "l = of_nat (length v)"
  define hdr where "hdr = push_bit 4 (nibble_of d) OR nibble_of l"
  have buf': "buffer = pre @ hdr # ext_of d @ ext_of l @ v @ rest"
    by (simp add: buf encodeOptionDeltaLength_alt l_def hdr_def)
  have unat_l: "unat l = length v" by (simp add: l_def unat_of_nat_len len)
  have h0: "length pre < length buffer" by (simp add: buf')
  have h1: "buffer ! length pre = hdr" by (simp add: buf')
  have h2: "hdr \<noteq> PAYLOAD_MARKER" unfolding hdr_def by (rule header_not_marker)
  have h3: "drop_bit 4 hdr AND 0x0F = nibble_of d" "hdr AND 0x0F = nibble_of l"
    unfolding hdr_def by (rule nibble_hi [OF nibble_of_lt16 nibble_of_lt16])+
  have "decodeOptionDeltaLength ((pre @ [hdr]) @ ext_of d @ (ext_of l @ v @ rest))
          (length (pre @ [hdr])) (nibble_of d)
        = Inr (length (pre @ [hdr]) + length (ext_of d), d)"
    by (rule decode_ext_of)
  then have h4: "decodeOptionDeltaLength buffer (length pre + 1) (nibble_of d)
        = Inr (length pre + 1 + length (ext_of d), d)"
    by (simp add: buf')
  have "decodeOptionDeltaLength ((pre @ [hdr] @ ext_of d) @ ext_of l @ (v @ rest))
          (length (pre @ [hdr] @ ext_of d)) (nibble_of l)
        = Inr (length (pre @ [hdr] @ ext_of d) + length (ext_of l), l)"
    by (rule decode_ext_of)
  then have h5: "decodeOptionDeltaLength buffer (length pre + 1 + length (ext_of d)) (nibble_of l)
        = Inr (length pre + 1 + length (ext_of d) + length (ext_of l), l)"
    by (simp add: buf' add.assoc)
  define off2 where "off2 = length pre + 1 + length (ext_of d) + length (ext_of l)"
  have h6: "\<not> off2 + unat l > length buffer" by (simp add: off2_def unat_l buf')
  have h7: "\<not> l > MAX_OPTION_VALUE_SIZE" unfolding l_def by (rule len_le_max [OF len])
  have "drop off2 buffer = v @ rest" by (simp add: off2_def buf')
  then have h8: "take (unat l) (drop off2 buffer) = v" by (simp add: unat_l)
  have h9: "l > 0 \<longleftrightarrow> v \<noteq> []" by (simp add: l_def len_pos_iff [OF len])
  have h10: "length (encodeOptionDeltaLength d l) = 1 + length (ext_of d) + length (ext_of l)"
    by (simp add: encodeOptionDeltaLength_alt)
  have "parseOptions_loop buffer (length pre) lastNum acc
           = parseOptions_loop buffer (off2 + length v) (lastNum + d)
               (acc @ [\<lparr>number = lastNum + d, value = v\<rparr>])"
    apply (subst parseOptions_loop.simps)
    apply (simp only: h0 h1 h2 h3 h4 if_True if_False sum.case prod.case)
    apply (simp only: h5 [unfolded off2_def [symmetric]] off2_def [symmetric] sum.case prod.case h6 h7 if_False h8)
    apply (cases "v = []")
     apply (simp_all add: h9 unat_l)
    done
  moreover have "off2 + length v = length pre + length (encodeOptionDeltaLength d l) + length v"
    by (simp add: off2_def h10)
  ultimately show ?thesis
    by (simp add: l_def)
qed

lemma CoapOption_eta: "\<lparr>number = number opt, value = value opt\<rparr> = opt"
  by (cases opt) simp

lemma packOptions_loop_packed:
  "\<forall>opt\<in>set opts. length (value opt) \<le> 1034 \<Longrightarrow>
   packOptions_loop opts lastNum buffer = (OK, buffer @ packed_options opts lastNum)"
proof (induction opts arbitrary: lastNum buffer)
  case Nil
  then show ?case by simp
next
  case (Cons opt opts)
  then have len: "length (value opt) \<le> 1034" by simp
  have pos: "(0 < (of_nat (length (value opt)) :: uint16_t)) \<longleftrightarrow> value opt \<noteq> []"
    by (simp add: len_pos_iff [OF len])
  show ?case
    using Cons len_le_max [OF len] by (cases "value opt = []") (simp_all add: Let_def pos)
qed

lemma parse_packed:
  assumes "\<forall>opt\<in>set opts. length (value opt) \<le> 1034"
    and "buffer = pre @ packed_options opts lastNum @ rest"
  shows "\<exists>n. parseOptions_loop buffer (length pre) lastNum acc
           = parseOptions_loop buffer (length pre + length (packed_options opts lastNum)) n
               (acc @ opts)"
  using assms
proof (induction opts arbitrary: pre lastNum acc)
  case Nil
  then show ?case by auto
next
  case (Cons opt opts)
  define enc where "enc = encodeOptionDeltaLength (number opt - lastNum) (of_nat (length (value opt)))"
  have len: "length (value opt) \<le> 1034" using Cons.prems(1) by simp
  have buf: "buffer = pre @ enc @ value opt @ (packed_options opts (number opt) @ rest)"
    using Cons.prems(2) by (simp add: enc_def)
  have step: "parseOptions_loop buffer (length pre) lastNum acc
           = parseOptions_loop buffer (length pre + length enc + length (value opt))
               (number opt) (acc @ [opt])"
    using parse_one_option [OF len buf [unfolded enc_def], of lastNum acc]
    by (simp add: enc_def CoapOption_eta)
  have "\<forall>opt\<in>set opts. length (value opt) \<le> 1034" using Cons.prems(1) by simp
  moreover have "buffer = (pre @ enc @ value opt) @ packed_options opts (number opt) @ rest"
    using buf by simp
  ultimately obtain n where
    "parseOptions_loop buffer (length (pre @ enc @ value opt)) (number opt) (acc @ [opt])
       = parseOptions_loop buffer
           (length (pre @ enc @ value opt) + length (packed_options opts (number opt))) n
           ((acc @ [opt]) @ opts)"
    using Cons.IH by blast
  with step show ?case
    by (auto simp add: enc_def add.assoc)
qed

lemma parseOptions_packed_end:
  assumes "\<forall>opt\<in>set opts. length (value opt) \<le> 1034"
  shows "parseOptions_loop (pre @ packed_options opts lastNum) (length pre) lastNum acc
           = (OK, length pre + length (packed_options opts lastNum), acc @ opts, False)"
proof -
  obtain n where "parseOptions_loop (pre @ packed_options opts lastNum) (length pre) lastNum acc
           = parseOptions_loop (pre @ packed_options opts lastNum)
               (length pre + length (packed_options opts lastNum)) n (acc @ opts)"
    using parse_packed [OF assms, of "pre @ packed_options opts lastNum" pre lastNum "[]" acc]
    by auto
  then show ?thesis
    by (simp add: parseOptions_loop.simps)
qed

lemma parseOptions_packed_marker:
  assumes "\<forall>opt\<in>set opts. length (value opt) \<le> 1034"
  shows "parseOptions_loop (pre @ packed_options opts lastNum @ PAYLOAD_MARKER # pl) (length pre) lastNum acc
           = (OK, length pre + length (packed_options opts lastNum) + 1, acc @ opts, True)"
proof -
  let ?buf = "pre @ packed_options opts lastNum @ PAYLOAD_MARKER # pl"
  obtain n where "parseOptions_loop ?buf (length pre) lastNum acc
           = parseOptions_loop ?buf (length pre + length (packed_options opts lastNum)) n (acc @ opts)"
    using parse_packed [OF assms, of ?buf pre lastNum "PAYLOAD_MARKER # pl" acc]
    by auto
  moreover have "?buf ! (length pre + length (packed_options opts lastNum)) = PAYLOAD_MARKER"
    by (simp add: nth_append)
  ultimately show ?thesis
    by (simp add: parseOptions_loop.simps [of ?buf "length pre + length (packed_options opts lastNum)"])
qed

lemma byte0_fields_take_bit:
  fixes t l :: uint8_t
  defines "b \<equiv> push_bit 6 1 OR push_bit 4 (take_bit 2 t) OR take_bit 4 l"
  shows "drop_bit 6 b AND 0x03 = 1"
    and "drop_bit 4 b AND 0x03 = take_bit 2 t"
    and "b AND 0x0F = take_bit 4 l"
  unfolding b_def
  by (rule bit_word_eqI; auto simp add: bit_simps and_x03 and_x0F)+

lemma CoapType_roundtrip: "CoapType_of_uint8 (take_bit 2 (uint8_of_CoapType ty)) = ty"
  by (cases ty) (simp_all add: CoapType_of_uint8_def)

lemma take_bit_type: "take_bit 2 (uint8_of_CoapType ty) = uint8_of_CoapType ty"
  by (cases ty) simp_all

lemma byte0_fields:
  fixes l :: uint8_t and ty :: CoapType
  assumes "l \<le> 8"
  defines "b \<equiv> push_bit 6 (COAP_VERSION AND 0x03) OR push_bit 4 (uint8_of_CoapType ty AND 0x03)
                   OR (l AND 0x0F)"
  shows "drop_bit 6 b AND 0x03 = COAP_VERSION"
    and "CoapType_of_uint8 (drop_bit 4 b AND 0x03) = ty"
    and "b AND 0x0F = l"
proof -
  have "l < 2 ^ 4" using assms(1) by (simp add: word_le_nat_alt word_less_nat_alt)
  then have l: "take_bit 4 l = l" by (rule take_bit_word_lt)
  have b: "b = push_bit 6 1 OR push_bit 4 (take_bit 2 (uint8_of_CoapType ty)) OR take_bit 4 l"
    by (simp add: b_def COAP_VERSION_def and_x03 and_x0F take_bit_type)
  show "drop_bit 6 b AND 0x03 = COAP_VERSION"
    unfolding b by (simp only: byte0_fields_take_bit COAP_VERSION_def)
  show "CoapType_of_uint8 (drop_bit 4 b AND 0x03) = ty"
    unfolding b by (simp only: byte0_fields_take_bit CoapType_roundtrip)
  show "b AND 0x0F = l"
    using byte0_fields_take_bit(3) [of "uint8_of_CoapType ty" l] by (simp only: b l)
qed

lemma parse_wellformed:
  fixes tl c :: uint8_t and ty :: CoapType and mid :: uint16_t
    and tok pl :: "uint8_t list" and opts :: "CoapOption list"
  assumes tl: "tl \<le> 8" and tok: "length tok = unat tl"
    and cls: "isValidCodeClass (getCodeClass c)"
    and opts: "\<forall>opt\<in>set opts. length (value opt) \<le> 1034"
    and pl: "length pl \<le> 1024"
  defines "b0 \<equiv> push_bit 6 (COAP_VERSION AND 0x03) OR push_bit 4 (uint8_of_CoapType ty AND 0x03)
                   OR (tl AND 0x0F)"
  defines "buffer \<equiv> [b0, c, ucast (drop_bit 8 mid), ucast (mid AND 0xFF)] @ tok
                       @ packed_options opts 0 @ (if pl = [] then [] else PAYLOAD_MARKER # pl)"
  shows "parse buffer p0 =
           (OK, \<lparr>version = COAP_VERSION, type = ty, token_length = tl,
                 token = tok @ replicate (8 - unat tl) 0, code = c, message_id = mid,
                 options = opts, payload = pl\<rparr>)"
proof -
  note f = byte0_fields [OF tl, of ty, folded b0_def]
  have n0: "buffer ! 0 = b0" "buffer ! 1 = c" "buffer ! 2 = ucast (drop_bit 8 mid)"
    "buffer ! 3 = ucast (mid AND 0xFF)"
    by (simp_all add: buffer_def numeral_eq_Suc)
  have len4: "\<not> length buffer < 4" by (simp add: buffer_def)
  have mid: "push_bit 8 (ucast (buffer ! 2)) OR ucast (buffer ! 3) = mid"
    unfolding n0 by (rule ext2)
  have tl8: "\<not> tl > 8" using tl by simp
  have tokfit: "\<not> 4 + unat tl > length buffer" by (simp add: buffer_def tok)
  have tokcpy: "memcpy (replicate 8 0) (drop 4 buffer) (unat tl) = tok @ replicate (8 - unat tl) 0"
    by (simp add: memcpy_def buffer_def tok)
  have tl0: "\<not> 0 < tl \<Longrightarrow> tok = []" using tok by (simp add: word_less_nat_alt)
  define pre where "pre = [b0, c, ucast (drop_bit 8 mid), ucast (mid AND 0xFF)] @ tok"
  have lpre: "length pre = 4 + unat tl" by (simp add: pre_def tok)
  have po: "parseOptions buffer (4 + unat tl) [] =
      (OK, 4 + unat tl + length (packed_options opts 0) + (if pl = [] then 0 else 1), opts, pl \<noteq> [])"
  proof (cases "pl = []")
    case True
    then have "buffer = pre @ packed_options opts 0" by (simp add: buffer_def pre_def)
    then show ?thesis
      using parseOptions_packed_end [OF opts, of pre 0 "[]"] True
      by (simp add: parseOptions_def lpre)
  next
    case False
    then have "buffer = pre @ packed_options opts 0 @ PAYLOAD_MARKER # pl" by (simp add: buffer_def pre_def)
    then show ?thesis
      using parseOptions_packed_marker [OF opts, of pre 0 pl "[]"] False
      by (simp add: parseOptions_def lpre)
  qed
  have lbuf: "length buffer = 4 + unat tl + length (packed_options opts 0) + (if pl = [] then 0 else 1 + length pl)"
    by (simp add: buffer_def tok)
  have dr: "drop (4 + unat tl + length (packed_options opts 0) + 1) buffer = pl" if "pl \<noteq> []"
  proof -
    have "buffer = (pre @ packed_options opts 0 @ [PAYLOAD_MARKER]) @ pl"
      using that by (simp add: buffer_def pre_def)
    moreover have "length (pre @ packed_options opts 0 @ [PAYLOAD_MARKER])
                     = 4 + unat tl + length (packed_options opts 0) + 1"
      by (simp add: lpre)
    ultimately show ?thesis
      by (metis append_eq_conv_conj)
  qed
  have dr5: "drop (5 + (unat tl + length (packed_options opts 0))) buffer = pl" if "pl \<noteq> []"
  proof -
    have "5 + (unat tl + length (packed_options opts 0))
            = 4 + unat tl + length (packed_options opts 0) + 1"
      by simp
    then show ?thesis using dr [OF that] by (simp only:)
  qed
  have mx: "unat MAX_PAYLOAD_SIZE = 1024" by (simp add: MAX_PAYLOAD_SIZE_def)
  have noopts: "\<not> 4 + unat tl < length buffer \<Longrightarrow> opts = [] \<and> pl = []"
    by (cases opts) (auto simp add: lbuf encodeOptionDeltaLength_alt split: if_splits)
  obtain v0 ty0 tl0 tok0 c0 mid0 opts0 pl0 where p0: "p0 = \<lparr>version = v0, type = ty0,
      token_length = tl0, token = tok0, code = c0, message_id = mid0, options = opts0,
      payload = pl0\<rparr>"
    by (cases p0) auto
  have n1: "buffer ! Suc 0 = c" using n0(2) by simp
  show ?thesis
  proof (cases "0 < tl")
    case True
    show ?thesis
    proof (cases "4 + unat tl < length buffer")
      case lt: True
      show ?thesis
        using True pl lt
        by (cases "pl = []")
           (simp_all add: parse_def Let_def len4 n0(1) n1 f mid cls tl8 tokfit tokcpy
              CoapPacket_clear_def p0 po lbuf dr5 mx)
    next
      case ge: False
      show ?thesis
        using True pl ge noopts [OF ge]
        by (simp add: parse_def Let_def len4 n0(1) n1 f mid cls tl8 tokfit tokcpy
              CoapPacket_clear_def p0)
    qed
  next
    case False
    then have u: "unat tl = 0" "tl = 0" by (simp_all add: word_less_nat_alt unat_eq_0)
    have tokn: "tok = []" by (rule tl0 [OF False])
    show ?thesis
    proof (cases "4 < length buffer")
      case lt: True
      show ?thesis
        using False pl lt po dr5
        by (cases "pl = []")
           (simp_all add: parse_def Let_def len4 n0(1) n1 f mid cls tl8
              CoapPacket_clear_def p0 lbuf mx u tokn)
    next
      case ge: False
      show ?thesis
        using False pl ge noopts
        by (simp add: parse_def Let_def len4 n0(1) n1 f mid cls tl8 CoapPacket_clear_def p0 u tokn)
    qed
  qed
qed

section \<open>The stages of parse\<close>

lemma CoapPacket_clear_new: "CoapPacket_clear p = CoapPacket_new"
  by (cases p) (simp add: CoapPacket_clear_def CoapPacket_new_def)

lemma parse_alt:
  "parse buffer p0 =
     (if length buffer < 4 then (DATAGRAM_TOO_SHORT, CoapPacket_new)
      else if drop_bit 6 (buffer ! 0) AND 0x03 \<noteq> COAP_VERSION then (INVALID_VERSION, CoapPacket_new)
      else if buffer ! 0 AND 0x0F > 8
        then (INVALID_TOKEN_LENGTH,
              CoapPacket_new\<lparr>type := CoapType_of_uint8 (drop_bit 4 (buffer ! 0) AND 0x03),
                              token_length := buffer ! 0 AND 0x0F\<rparr>)
      else if \<not> isValidCodeClass (getCodeClass (buffer ! 1))
        then (INVALID_CODE_CLASS,
              CoapPacket_new\<lparr>type := CoapType_of_uint8 (drop_bit 4 (buffer ! 0) AND 0x03),
                              token_length := buffer ! 0 AND 0x0F, code := buffer ! 1\<rparr>)
      else if 4 + unat (buffer ! 0 AND 0x0F) > length buffer
        then (DATAGRAM_TOO_SHORT, (header_packet buffer)\<lparr>token := replicate 8 0\<rparr>)
      else parse_finish buffer (header_packet buffer)
             (if 4 + unat (buffer ! 0 AND 0x0F) < length buffer
              then parseOptions buffer (4 + unat (buffer ! 0 AND 0x0F)) []
              else (OK, 4 + unat (buffer ! 0 AND 0x0F), [], False)))"
proof -
  have z: "\<not> 0 < buffer ! 0 AND 0x0F \<Longrightarrow> unat (buffer ! 0 AND 0x0F) = 0"
    by (simp add: word_less_nat_alt)
  show ?thesis
  proof (cases "0 < buffer ! 0 AND 0x0F")
    case True
    then show ?thesis
      by (simp add: parse_def CoapPacket_clear_new Let_def parse_finish_def header_packet_def
            CoapPacket_new_def split: prod.splits)
  next
    case False
    with z have u: "unat (buffer ! 0 AND 0x0F) = 0" by simp
    from False show ?thesis
      by (simp add: parse_def CoapPacket_clear_new Let_def parse_finish_def header_packet_def
            CoapPacket_new_def u memcpy_def split: prod.splits)
  qed
qed

section \<open>What is known of std::sort\<close>

lemma std_sort_post_set:
  "std_sort_post srt \<Longrightarrow> set (srt number_less xs) = set xs"
  unfolding std_sort_post_def by (metis set_mset_mset)

lemma std_sort_post_sorted:
  assumes "std_sort_post srt"
  shows "sorted (map number (srt number_less xs))"
proof -
  have "sorted_wrt (\<lambda>a b. \<not> number_less b a) (srt number_less xs)"
    using assms unfolding std_sort_post_def by blast
  then show ?thesis
    by (simp add: sorted_map number_less_def not_less)
qed

lemma mset_insert_by: "mset (insert_by cmp x ys) = add_mset x (mset ys)"
  by (induction ys) simp_all

lemma mset_insert_after: "mset (insert_after cmp x ys) = add_mset x (mset ys)"
  by (induction ys) simp_all

lemma set_insert_by: "set (insert_by cmp x ys) = insert x (set ys)"
  by (induction ys) auto

lemma set_insert_after: "set (insert_after cmp x ys) = insert x (set ys)"
  by (induction ys) auto

lemma sorted_insert_by:
  "sorted_wrt (\<lambda>a b. \<not> number_less b a) ys \<Longrightarrow>
   sorted_wrt (\<lambda>a b. \<not> number_less b a) (insert_by number_less x ys)"
  by (induction ys) (auto simp add: set_insert_by number_less_def)

lemma sorted_insert_after:
  "sorted_wrt (\<lambda>a b. \<not> number_less b a) ys \<Longrightarrow>
   sorted_wrt (\<lambda>a b. \<not> number_less b a) (insert_after number_less x ys)"
  by (induction ys) (auto simp add: set_insert_after number_less_def)

lemma insertion_sort_post: "std_sort_post insertion_sort"
  unfolding std_sort_post_def
proof (intro allI conjI)
  fix xs
  show "mset (insertion_sort number_less xs) = mset xs"
    by (induction xs) (simp_all add: insertion_sort_def mset_insert_by)
  show "sorted_wrt (\<lambda>a b. \<not> number_less b a) (insertion_sort number_less xs)"
    by (induction xs) (simp_all add: insertion_sort_def sorted_insert_by)
qed

lemma reversing_sort_post: "std_sort_post reversing_sort"
  unfolding std_sort_post_def
proof (intro allI conjI)
  fix xs
  show "mset (reversing_sort number_less xs) = mset xs"
    by (induction xs) (simp_all add: reversing_sort_def mset_insert_after)
  show "sorted_wrt (\<lambda>a b. \<not> number_less b a) (reversing_sort number_less xs)"
    by (induction xs) (simp_all add: reversing_sort_def sorted_insert_after)
qed

lemma filter_insert_by:
  "filter (\<lambda>opt. number opt = k) (insert_by number_less x ys)
     = (if number x = k then x # filter (\<lambda>opt. number opt = k) ys
        else filter (\<lambda>opt. number opt = k) ys)"
  by (induction ys) (auto simp add: number_less_def)

lemma insertion_sort_stable:
  "filter (\<lambda>opt. number opt = k) (insertion_sort number_less xs)
     = filter (\<lambda>opt. number opt = k) xs"
  by (induction xs) (simp_all add: insertion_sort_def filter_insert_by)

lemma stable_sort_unique:
  assumes "std_sort_post srt" and "std_sort_stable srt"
  shows "srt number_less xs = sort_key number xs"
proof -
  have ms: "mset (srt number_less xs) = mset xs"
    using assms(1) unfolding std_sort_post_def by blast
  have st: "filter (\<lambda>x. number k = number x) (srt number_less xs)
              = filter (\<lambda>x. number k = number x) xs" for k
    using assms(2) unfolding std_sort_stable_def by (simp add: eq_commute [of "number k"])
  have so: "sorted (map number (srt number_less xs))"
    by (rule std_sort_post_sorted [OF assms(1)])
  show ?thesis
    by (rule properties_for_sort_key [OF ms st so, symmetric])
qed

lemma insertion_sort_is_stable: "std_sort_stable insertion_sort"
  by (simp add: std_sort_stable_def insertion_sort_stable)

lemma reversing_sort_not_stable: "\<not> std_sort_stable reversing_sort"
proof
  assume "std_sort_stable reversing_sort"
  then have "filter (\<lambda>opt. number opt = 11)
                (reversing_sort number_less [\<lparr>number = 11, value = [1]\<rparr>, \<lparr>number = 11, value = [2]\<rparr>])
             = filter (\<lambda>opt. number opt = 11) [\<lparr>number = 11, value = [1]\<rparr>, \<lparr>number = 11, value = [2]\<rparr>]"
    unfolding std_sort_stable_def by blast
  then show False
    by (simp add: reversing_sort_def number_less_def)
qed

section \<open>Building, then parsing\<close>

lemma buildBuffer_ok:
  assumes v: "validate b = OK"
    and o: "\<forall>opt\<in>set (srt number_less (options (m_packet b))). length (value opt) \<le> 1034"
  shows "buildBuffer srt b buf0 =
           (OK, (sortOptions srt b)\<lparr>m_lastError := OK\<rparr>,
            [push_bit 6 (COAP_VERSION AND 0x03)
               OR push_bit 4 (uint8_of_CoapType (type (m_packet b)) AND 0x03)
               OR (token_length (m_packet b) AND 0x0F),
             code (m_packet b), ucast (drop_bit 8 (message_id (m_packet b))),
             ucast (message_id (m_packet b) AND 0xFF)]
            @ take (unat (token_length (m_packet b))) (token (m_packet b))
            @ packed_options (srt number_less (options (m_packet b))) 0
            @ (if payload (m_packet b) = [] then [] else PAYLOAD_MARKER # payload (m_packet b)))"
proof -
  have po: "packOptions (sortOptions srt b)
              = (OK, packed_options (srt number_less (options (m_packet b))) 0)"
    using packOptions_loop_packed [OF o, of 0 "[]"]
    by (simp add: packOptions_def sortOptions_def)
  have tl0: "\<not> 0 < token_length (m_packet b) \<Longrightarrow> unat (token_length (m_packet b)) = 0"
    by (simp add: word_less_nat_alt)
  show ?thesis
    using v tl0
    by (cases "0 < token_length (m_packet b)")
       (auto simp add: buildBuffer_def Let_def po [unfolded sortOptions_def] sortOptions_def)
qed

text \<open>
  C1. Let the builder hold a message \<open>m\<close> that meets the invariants of the data model:
  the protocol version, a token length of at most 8 (in the 8-byte token array), a code
  class other than 1, 6 and 7, a payload of at most 1024 bytes, option values of at most
  1034 bytes each, and nothing but the header when the code is EMPTY. Then
  \<open>buildBuffer\<close> succeeds, \<open>parse\<close> succeeds on the bytes it produced, and the parsed
  message has the version, type, code, message id, token length, token bytes (zero
  padded) and payload of \<open>m\<close>. Its options are those of \<open>m\<close> as \<open>std::sort\<close> left them:
  the same options, ascending by number. That holds for every \<open>std::sort\<close> that meets
  its contract. Where that sort is stable, the parsed options are \<open>m\<close>'s options in
  ascending order with equal numbers in insertion order, as the claim has it; the
  contract of \<open>std::sort\<close> alone does not give that (see C6).
\<close>

theorem build_parse_roundtrip:
  assumes srt: "std_sort_post srt"
    and m: "m_packet b = m"
    and ver: "version m = COAP_VERSION"
    and tok: "length (token m) = 8"
    and tkl: "token_length m \<le> 8"
    and cls: "isValidCodeClass (getCodeClass (code m))"
    and pl: "length (payload m) \<le> 1024"
    and ol: "\<forall>opt\<in>set (options m). length (value opt) \<le> 1034"
    and emp: "code m = EMPTY \<longrightarrow> token_length m = 0 \<and> options m = [] \<and> payload m = []"
  shows "(case buildBuffer srt b buf0 of (err, b', buffer) \<Rightarrow>
           err = OK \<and>
           (case parse buffer p0 of (err', p) \<Rightarrow>
              err' = OK \<and> version p = version m \<and> type p = type m \<and> code p = code m \<and>
              message_id p = message_id m \<and> token_length p = token_length m \<and>
              take (unat (token_length m)) (token p) = take (unat (token_length m)) (token m) \<and>
              drop (unat (token_length m)) (token p) = replicate (8 - unat (token_length m)) 0 \<and>
              payload p = payload m \<and>
              options p = srt number_less (options m) \<and>
              mset (options p) = mset (options m) \<and>
              sorted (map number (options p)) \<and>
              (std_sort_stable srt \<longrightarrow> options p = sort_key number (options m))))"
proof -
  have v: "validate b = OK"
    using tkl cls pl emp by (auto simp add: validate_def m MAX_PAYLOAD_SIZE_def)
  have o: "\<forall>opt\<in>set (srt number_less (options (m_packet b))). length (value opt) \<le> 1034"
    using ol by (simp add: std_sort_post_set [OF srt] m)
  have ltok: "length (take (unat (token_length m)) (token m)) = unat (token_length m)"
    using tkl tok by (simp add: word_le_nat_alt)
  have ms: "mset (srt number_less (options m)) = mset (options m)"
    using srt unfolding std_sort_post_def by blast
  have st: "std_sort_stable srt \<longrightarrow> srt number_less (options m) = sort_key number (options m)"
    using stable_sort_unique [OF srt] by blast
  note bb = buildBuffer_ok [where b = b and srt = srt and ?buf0.0 = buf0, OF v o, unfolded m]
  note pp = parse_wellformed [where ?p0.0 = p0 and ty = "type m" and mid = "message_id m",
              OF tkl ltok cls o [unfolded m] pl]
  show ?thesis
    apply (simp only: bb prod.case pp)
    using tkl st
    apply (simp add: ver ms tok word_le_nat_alt std_sort_post_sorted [OF srt] del: sorted_map)
    done
qed

theorem build_parse_roundtrip_witness:
  "(case buildBuffer insertion_sort \<lparr>m_packet = example_message, m_lastError = OK\<rparr> []
    of (err, b', buffer) \<Rightarrow>
           err = OK \<and>
           (case parse buffer CoapPacket_new of (err', p) \<Rightarrow>
              err' = OK \<and> version p = version example_message \<and>
              type p = type example_message \<and> code p = code example_message \<and>
              message_id p = message_id example_message \<and>
              token_length p = token_length example_message \<and>
              token p = token example_message \<and>
              payload p = payload example_message \<and>
              mset (options p) = mset (options example_message) \<and>
              sorted (map number (options p)) \<and>
              options p = sort_key number (options example_message)))"
proof -
  have h1: "m_packet \<lparr>m_packet = example_message, m_lastError = OK\<rparr> = example_message"
    by simp
  have h2: "version example_message = COAP_VERSION" by (simp add: example_message_def)
  have h3: "length (token example_message) = 8" by (simp add: example_message_def)
  have h4: "token_length example_message \<le> 8" by (simp add: example_message_def)
  have h5: "isValidCodeClass (getCodeClass (code example_message))"
    by (simp add: example_message_def getCodeClass_def isValidCodeClass_def)
  have h6: "length (payload example_message) \<le> 1024" by (simp add: example_message_def)
  have h7: "\<forall>opt\<in>set (options example_message). length (value opt) \<le> 1034"
    by (simp add: example_message_def)
  have h8: "code example_message = EMPTY \<longrightarrow>
      token_length example_message = 0 \<and> options example_message = [] \<and>
      payload example_message = []"
    by (simp add: example_message_def EMPTY_def)
  have u: "unat (token_length example_message) = 3" by (simp add: example_message_def)
  have "replicate 5 (0 :: uint8_t) = [0, 0, 0, 0, 0]" by (simp add: numeral_eq_Suc)
  then have tk: "take (unat (token_length example_message)) (token example_message)
              @ replicate (8 - unat (token_length example_message)) 0 = token example_message"
    unfolding u by (simp add: example_message_def)
  have "take n xs = take n ys \<Longrightarrow> drop n xs = zs \<Longrightarrow> xs = take n ys @ zs"
    for n and xs ys zs :: "uint8_t list"
    by (metis append_take_drop_id)
  note cat = this
  show ?thesis
    using build_parse_roundtrip [where ?buf0.0 = "[]" and ?p0.0 = CoapPacket_new,
            OF insertion_sort_post h1 h2 h3 h4 h5 h6 h7 h8]
      insertion_sort_is_stable tk
    by (auto split: prod.splits dest: cat simp del: sorted_map)
qed

text \<open>
  The order among options with equal numbers is not fixed by the contract of
  \<open>std::sort\<close>: with \<open>reversing_sort\<close>, which meets it, two options numbered 11 that
  were added as \<open>[1]\<close> and then \<open>[2]\<close> are built, and parsed back, as \<open>[2]\<close>, \<open>[1]\<close>.
\<close>

theorem roundtrip_order_not_stable:
  "std_sort_post reversing_sort \<and>
   buildBuffer reversing_sort
       (addOption 11 [2] (addOption 11 [1] (setCode GET CoapBuilder_new))) []
     = (OK, (sortOptions reversing_sort
               (addOption 11 [2] (addOption 11 [1] (setCode GET CoapBuilder_new))))
              \<lparr>m_lastError := OK\<rparr>,
        [0x40, 0x01, 0x00, 0x00, 0xB1, 2, 0x01, 1]) \<and>
   fst (parse [0x40, 0x01, 0x00, 0x00, 0xB1, 2, 0x01, 1] CoapPacket_new) = OK \<and>
   options (snd (parse [0x40, 0x01, 0x00, 0x00, 0xB1, 2, 0x01, 1] CoapPacket_new))
     = [\<lparr>number = 11, value = [2]\<rparr>, \<lparr>number = 11, value = [1]\<rparr>] \<and>
   sort_key number [\<lparr>number = 11, value = [1]\<rparr>, \<lparr>number = 11, value = [2]\<rparr>]
     = [\<lparr>number = 11, value = [1]\<rparr>, \<lparr>number = 11, value = [2]\<rparr>]"
proof -
  have b: "buildBuffer reversing_sort
             (addOption 11 [2] (addOption 11 [1] (setCode GET CoapBuilder_new))) []
           = (OK, (sortOptions reversing_sort
                     (addOption 11 [2] (addOption 11 [1] (setCode GET CoapBuilder_new))))
                    \<lparr>m_lastError := OK\<rparr>,
              [0x40, 0x01, 0x00, 0x00, 0xB1, 2, 0x01, 1])"
    by (simp add: buildBuffer_def validate_def Let_def addOption_def setCode_def
        CoapBuilder_new_def CoapPacket_clear_def GET_def EMPTY_def getCodeClass_def
        isValidCodeClass_def MAX_PAYLOAD_SIZE_def sortOptions_def reversing_sort_def
        number_less_def packOptions_def COAP_VERSION_def MAX_OPTION_VALUE_SIZE_def
        encodeOptionDeltaLength_def)
  have p: "parse [0x40, 0x01, 0x00, 0x00, 0xB1, 2, 0x01, 1] CoapPacket_new
         = (OK, (header_packet [0x40, 0x01, 0x00, 0x00, 0xB1, 2, 0x01, 1])
                  \<lparr>options := [\<lparr>number = 11, value = [2]\<rparr>, \<lparr>number = 11, value = [1]\<rparr>]\<rparr>)"
    by (simp add: parse_alt parse_finish_def parseOptions_def parseOptions_loop.simps
          decodeOptionDeltaLength_def COAP_VERSION_def getCodeClass_def isValidCodeClass_def
          PAYLOAD_MARKER_def MAX_OPTION_VALUE_SIZE_def)
  show ?thesis
    by (simp add: b p reversing_sort_post)
qed

section \<open>The order of the options after a build\<close>

text \<open>
  C6. For every \<open>std::sort\<close> meeting its contract, after a successful \<open>build\<close> or
  \<open>buildBuffer\<close> the options of the builder (and of the packet that \<open>build\<close> hands
  out) are the options added before, in non-decreasing order of their numbers. Where
  that sort is stable, they are the stable sort of the options added, so that options
  with equal numbers keep their insertion order.
\<close>

theorem build_sorts_options:
  assumes "std_sort_post srt"
  shows "(case build srt b packet of (err, b', packet') \<Rightarrow>
            err = OK \<longrightarrow>
              sorted (map number (options packet')) \<and>
              mset (options packet') = mset (options (m_packet b)) \<and>
              options (m_packet b') = options packet' \<and>
              (std_sort_stable srt \<longrightarrow> options packet' = sort_key number (options (m_packet b)))) \<and>
         (case buildBuffer srt b buffer of (err, b', buffer') \<Rightarrow>
            err = OK \<longrightarrow>
              sorted (map number (options (m_packet b'))) \<and>
              mset (options (m_packet b')) = mset (options (m_packet b)) \<and>
              (std_sort_stable srt \<longrightarrow>
                 options (m_packet b') = sort_key number (options (m_packet b))))"
proof -
  have ms: "mset (srt number_less (options (m_packet b))) = mset (options (m_packet b))"
    using assms unfolding std_sort_post_def by blast
  note so = std_sort_post_sorted [OF assms, of "options (m_packet b)"]
  have st: "std_sort_stable srt \<longrightarrow>
      srt number_less (options (m_packet b)) = sort_key number (options (m_packet b))"
    using stable_sort_unique [OF assms] by blast
  show ?thesis
    using ms so st
    by (auto simp add: build_def buildBuffer_def Let_def sortOptions_def simp del: sorted_map)
qed

theorem build_sorts_options_witness:
  "(case build insertion_sort
           (addOption 15 [1] (addOption 11 [2] (addOption 15 [3] (setCode GET CoapBuilder_new))))
           CoapPacket_new
    of (err, b', packet') \<Rightarrow>
       err = OK \<and> map number (options packet') = [11, 15, 15] \<and>
       sorted (map number (options packet')))"
proof -
  let ?b = "addOption 15 [1] (addOption 11 [2] (addOption 15 [3] (setCode GET CoapBuilder_new)))"
  have ev: "build insertion_sort ?b CoapPacket_new =
      (OK, (sortOptions insertion_sort ?b)\<lparr>m_lastError := OK\<rparr>,
       m_packet (sortOptions insertion_sort ?b))"
    by (simp add: build_def validate_def Let_def addOption_def setCode_def CoapBuilder_new_def
        CoapPacket_clear_def GET_def EMPTY_def getCodeClass_def isValidCodeClass_def
        MAX_PAYLOAD_SIZE_def)
  have nums: "map number (options (m_packet (sortOptions insertion_sort ?b))) = [11, 15, 15]"
    by (simp add: sortOptions_def addOption_def setCode_def CoapBuilder_new_def
        CoapPacket_clear_def insertion_sort_def number_less_def)
  show ?thesis
    using build_sorts_options [OF insertion_sort_post, of ?b CoapPacket_new "[]"]
    by (simp add: ev nums del: sorted_map)
qed

text \<open>
  The other part of C6, that options with equal numbers keep their insertion order,
  does not follow: \<open>reversing_sort\<close> meets the contract of \<open>std::sort\<close>, and with it two
  options numbered 11, added as \<open>[1]\<close> and then \<open>[2]\<close>, leave \<open>build\<close> as \<open>[2]\<close>, \<open>[1]\<close>.
\<close>

theorem std_sort_not_stable:
  "std_sort_post reversing_sort \<and>
   fst (build reversing_sort
          (addOption 11 [2] (addOption 11 [1] (setCode GET CoapBuilder_new))) CoapPacket_new)
     = OK \<and>
   options (snd (snd (build reversing_sort
          (addOption 11 [2] (addOption 11 [1] (setCode GET CoapBuilder_new))) CoapPacket_new)))
     = [\<lparr>number = 11, value = [2]\<rparr>, \<lparr>number = 11, value = [1]\<rparr>] \<and>
   options (m_packet (addOption 11 [2] (addOption 11 [1] (setCode GET CoapBuilder_new))))
     = [\<lparr>number = 11, value = [1]\<rparr>, \<lparr>number = 11, value = [2]\<rparr>]"
  by (simp add: reversing_sort_post build_def validate_def Let_def addOption_def setCode_def
        CoapBuilder_new_def CoapPacket_clear_def GET_def EMPTY_def getCodeClass_def
        isValidCodeClass_def MAX_PAYLOAD_SIZE_def sortOptions_def reversing_sort_def
        number_less_def)

section \<open>The request for /sensors/temp\<close>

lemma setUriPath_sensors_temp:
  "setUriPath ''/sensors/temp'' b =
     addUriPathSegment ''temp'' (addUriPathSegment ''sensors'' b)"
  by (simp add: setUriPath_def)

text \<open>
  C9, as the code has it. A builder with type CON, code GET, message id 1234, token
  \<open>[0x12, 0x34]\<close> and \<open>setUriPath "/sensors/temp"\<close> builds the bytes
  \<open>0x42 0x01 0x04 0xD2 0x12 0x34\<close> (the first byte is version 1, type 0 and token
  length 2), then the option header \<open>0xB7\<close> and \<open>sensors\<close>, then the option header
  \<open>0x04\<close> and \<open>temp\<close>. The builder holds two options, and on a range of two elements
  \<open>std::sort\<close> is the insertion sort of the library: it exchanges the two only when the
  second is smaller than the first, which \<open>insertion_sort\<close> does.
\<close>

theorem buildBuffer_sensors_temp:
  "fst (buildBuffer insertion_sort
          (setUriPath ''/sensors/temp''
            (setToken [0x12, 0x34] 2
              (setMessageId 1234 (setCode GET (setType CON CoapBuilder_new))))) buf0) = OK \<and>
   snd (snd (buildBuffer insertion_sort
          (setUriPath ''/sensors/temp''
            (setToken [0x12, 0x34] 2
              (setMessageId 1234 (setCode GET (setType CON CoapBuilder_new))))) buf0))
     = [0x42, 0x01, 0x04, 0xD2, 0x12, 0x34]
         @ [0xB7] @ map of_char ''sensors'' @ [0x04] @ map of_char ''temp''"
  apply (simp add: setUriPath_sensors_temp addUriPathSegment_def addOption_string_def addOption_def
      setToken_def CoapPacket_setToken_def setMessageId_def setCode_def setType_def CoapBuilder_new_def
      CoapPacket_clear_def CoapPacket_new_def memcpy_def memset0_def)
  apply (simp add: buildBuffer_def validate_def Let_def sortOptions_def packOptions_def
      getCodeClass_def isValidCodeClass_def GET_def EMPTY_def MAX_PAYLOAD_SIZE_def
      COAP_VERSION_def MAX_OPTION_VALUE_SIZE_def encodeOptionDeltaLength_def URI_PATH_def
      insertion_sort_def number_less_def)
  done

theorem buildBuffer_sensors_temp_witness:
  "fst (buildBuffer insertion_sort
          (setUriPath ''/sensors/temp''
            (setToken [0x12, 0x34] 2
              (setMessageId 1234 (setCode GET (setType CON CoapBuilder_new))))) [0xAA, 0xBB]) = OK \<and>
   snd (snd (buildBuffer insertion_sort
          (setUriPath ''/sensors/temp''
            (setToken [0x12, 0x34] 2
              (setMessageId 1234 (setCode GET (setType CON CoapBuilder_new))))) [0xAA, 0xBB]))
     = [0x42, 0x01, 0x04, 0xD2, 0x12, 0x34]
         @ [0xB7] @ map of_char ''sensors'' @ [0x04] @ map of_char ''temp''"
  using buildBuffer_sensors_temp [of "[0xAA, 0xBB]"] .

text \<open>
  The first byte is \<open>0x42\<close>, not \<open>0x48\<close>: \<open>0x48\<close> would announce a token of 8 bytes.
\<close>

theorem buildBuffer_sensors_temp_bytes:
  "fst (buildBuffer insertion_sort
          (setUriPath ''/sensors/temp''
            (setToken [0x12, 0x34] 2
              (setMessageId 1234 (setCode GET (setType CON CoapBuilder_new))))) []) = OK \<and>
   hd (snd (snd (buildBuffer insertion_sort
          (setUriPath ''/sensors/temp''
            (setToken [0x12, 0x34] 2
              (setMessageId 1234 (setCode GET (setType CON CoapBuilder_new))))) []))) = 0x42 \<and>
   (0x42 :: uint8_t) \<noteq> 0x48"
  apply (simp add: setUriPath_sensors_temp addUriPathSegment_def addOption_string_def addOption_def
      setToken_def CoapPacket_setToken_def setMessageId_def setCode_def setType_def CoapBuilder_new_def
      CoapPacket_clear_def CoapPacket_new_def memcpy_def memset0_def)
  apply (simp add: buildBuffer_def validate_def Let_def sortOptions_def packOptions_def
      getCodeClass_def isValidCodeClass_def GET_def EMPTY_def MAX_PAYLOAD_SIZE_def
      COAP_VERSION_def MAX_OPTION_VALUE_SIZE_def encodeOptionDeltaLength_def URI_PATH_def
      insertion_sort_def number_less_def)
  done

section \<open>Validation in the builder\<close>

text \<open>
  C3, as the code has it, for the builder. When the packet has code EMPTY together with
  a non-zero token length, an option or a payload, and its token length is at most 8
  and its payload at most 1024 bytes (the two checks that \<open>validate\<close> makes first),
  \<open>build\<close> and \<open>buildBuffer\<close> return the invalid-format error, record it as the last
  error and leave the caller's packet or buffer as it was.
\<close>

theorem empty_message_build:
  assumes "code (m_packet b) = EMPTY"
    and "token_length (m_packet b) \<noteq> 0 \<or> options (m_packet b) \<noteq> [] \<or> payload (m_packet b) \<noteq> []"
    and "token_length (m_packet b) \<le> 8"
    and "length (payload (m_packet b)) \<le> 1024"
  shows "build srt b packet = (INVALID_FORMAT, b\<lparr>m_lastError := INVALID_FORMAT\<rparr>, packet) \<and>
         buildBuffer srt b buffer = (INVALID_FORMAT, b\<lparr>m_lastError := INVALID_FORMAT\<rparr>, buffer)"
proof -
  have "validate b = INVALID_FORMAT"
    using assms
    by (auto simp add: validate_def EMPTY_def getCodeClass_def isValidCodeClass_def
          MAX_PAYLOAD_SIZE_def)
  then show ?thesis
    by (simp add: build_def buildBuffer_def)
qed

theorem empty_message_build_witness:
  "code (m_packet (setToken [0xAA] 1 CoapBuilder_new)) = EMPTY \<and>
   token_length (m_packet (setToken [0xAA] 1 CoapBuilder_new)) \<noteq> 0 \<and>
   token_length (m_packet (setToken [0xAA] 1 CoapBuilder_new)) \<le> 8 \<and>
   length (payload (m_packet (setToken [0xAA] 1 CoapBuilder_new))) \<le> 1024 \<and>
   build insertion_sort (setToken [0xAA] 1 CoapBuilder_new) CoapPacket_new
     = (INVALID_FORMAT, (setToken [0xAA] 1 CoapBuilder_new)\<lparr>m_lastError := INVALID_FORMAT\<rparr>,
        CoapPacket_new) \<and>
   buildBuffer insertion_sort (setToken [0xAA] 1 CoapBuilder_new) []
     = (INVALID_FORMAT, (setToken [0xAA] 1 CoapBuilder_new)\<lparr>m_lastError := INVALID_FORMAT\<rparr>, [])"
proof -
  let ?b = "setToken [0xAA] 1 CoapBuilder_new"
  have h1: "code (m_packet ?b) = EMPTY"
    by (simp add: setToken_def CoapPacket_setToken_def CoapBuilder_new_def CoapPacket_clear_def)
  have h2: "token_length (m_packet ?b) \<noteq> 0"
    by (simp add: setToken_def CoapPacket_setToken_def CoapBuilder_new_def CoapPacket_clear_def)
  have h3: "token_length (m_packet ?b) \<le> 8"
    by (simp add: setToken_def CoapPacket_setToken_def CoapBuilder_new_def CoapPacket_clear_def)
  have h4: "length (payload (m_packet ?b)) \<le> 1024"
    by (simp add: setToken_def CoapPacket_setToken_def CoapBuilder_new_def CoapPacket_clear_def)
  from h2 have h2': "token_length (m_packet ?b) \<noteq> 0 \<or> options (m_packet ?b) \<noteq> [] \<or>
      payload (m_packet ?b) \<noteq> []" by blast
  show ?thesis
    using empty_message_build [OF h1 h2' h3 h4, of insertion_sort CoapPacket_new "[]"] h1 h2 h3 h4
    by blast
qed

text \<open>
  Where C3 fails. The parser has no check of the empty-message invariant: the five
  bytes \<open>0x41 0x00 0x00 0x01 0xAA\<close> parse successfully to code EMPTY with a token of
  length 1. And a builder with code EMPTY and a payload of 1025 bytes fails with the
  payload-too-large error, which \<open>validate\<close> checks first.
\<close>

theorem empty_message_not_rejected:
  "fst (parse [0x41, 0x00, 0x00, 0x01, 0xAA] CoapPacket_new) = OK \<and>
   code (snd (parse [0x41, 0x00, 0x00, 0x01, 0xAA] CoapPacket_new)) = EMPTY \<and>
   token_length (snd (parse [0x41, 0x00, 0x00, 0x01, 0xAA] CoapPacket_new)) = 1 \<and>
   code (m_packet (setPayload (replicate 1025 0) CoapBuilder_new)) = EMPTY \<and>
   payload (m_packet (setPayload (replicate 1025 0) CoapBuilder_new)) \<noteq> [] \<and>
   fst (build insertion_sort (setPayload (replicate 1025 0) CoapBuilder_new) CoapPacket_new)
     = PAYLOAD_TOO_LARGE \<and>
   fst (buildBuffer insertion_sort (setPayload (replicate 1025 0) CoapBuilder_new) [])
     = PAYLOAD_TOO_LARGE"
proof -
  have "parse [0x41, 0x00, 0x00, 0x01, 0xAA] CoapPacket_new
          = (OK, \<lparr>version = 1, type = CON, token_length = 1, token = 0xAA # replicate 7 0,
                  code = 0, message_id = 1, options = [], payload = []\<rparr>)"
    by (simp add: parse_def Let_def CoapPacket_clear_def CoapPacket_new_def COAP_VERSION_def
          CoapType_of_uint8_def getCodeClass_def isValidCodeClass_def EMPTY_def memcpy_def)
  moreover have "validate (setPayload (replicate 1025 0) CoapBuilder_new) = PAYLOAD_TOO_LARGE"
    by (simp add: validate_def setPayload_def CoapBuilder_new_def CoapPacket_clear_def
          EMPTY_def getCodeClass_def isValidCodeClass_def MAX_PAYLOAD_SIZE_def)
  ultimately show ?thesis
    by (simp add: build_def buildBuffer_def EMPTY_def setPayload_def CoapBuilder_new_def
          CoapPacket_clear_def)
qed

text \<open>
  C4, as the code has it. For every token input whose stated length exceeds 8 (and
  which holds that many bytes), \<open>setToken\<close> keeps the first 8 bytes and sets the token
  length to 8; \<open>validate\<close>, \<open>build\<close> and \<open>buildBuffer\<close> never return the
  invalid-token-length error for the resulting builder.
\<close>

theorem setToken_truncates:
  assumes "8 < len" and "unat len \<le> length tokenData" and "length (token (m_packet b)) = 8"
  shows "token_length (m_packet (setToken tokenData len b)) = 8 \<and>
         token (m_packet (setToken tokenData len b)) = take 8 tokenData \<and>
         validate (setToken tokenData len b) \<noteq> INVALID_TOKEN_LENGTH \<and>
         fst (build srt (setToken tokenData len b) packet) \<noteq> INVALID_TOKEN_LENGTH \<and>
         fst (buildBuffer srt (setToken tokenData len b) buffer) \<noteq> INVALID_TOKEN_LENGTH"
proof -
  have l8: "8 \<le> length tokenData"
    using assms(1,2) by (simp add: word_less_nat_alt)
  have p: "m_packet (setToken tokenData len b)
             = (m_packet b)\<lparr>token_length := 8, token := take 8 tokenData\<rparr>"
    using assms(1,3) l8 by (simp add: setToken_def CoapPacket_setToken_def memcpy_def)
  have v: "validate (setToken tokenData len b) \<noteq> INVALID_TOKEN_LENGTH"
    by (simp add: validate_def p)
  have pk: "fst (packOptions bb) \<noteq> INVALID_TOKEN_LENGTH" for bb
  proof -
    have "fst (packOptions_loop opts lastNum buf) \<noteq> INVALID_TOKEN_LENGTH" for opts lastNum buf
      by (induction opts arbitrary: lastNum buf) (simp_all add: Let_def)
    then show ?thesis by (simp add: packOptions_def)
  qed
  show ?thesis
    using v pk by (simp add: p build_def buildBuffer_def Let_def)
qed

theorem setToken_truncates_witness:
  "(8 :: uint8_t) < 9 \<and> unat (9 :: uint8_t) \<le> length [1, 2, 3, 4, 5, 6, 7, 8, 9 :: uint8_t] \<and>
   token_length (m_packet (setToken [1, 2, 3, 4, 5, 6, 7, 8, 9] 9 (setCode GET CoapBuilder_new))) = 8 \<and>
   token (m_packet (setToken [1, 2, 3, 4, 5, 6, 7, 8, 9] 9 (setCode GET CoapBuilder_new)))
     = take 8 [1, 2, 3, 4, 5, 6, 7, 8, 9] \<and>
   fst (buildBuffer insertion_sort
          (setToken [1, 2, 3, 4, 5, 6, 7, 8, 9] 9 (setCode GET CoapBuilder_new)) [])
     \<noteq> INVALID_TOKEN_LENGTH"
proof -
  have h1: "(8 :: uint8_t) < 9" by simp
  have h2: "unat (9 :: uint8_t) \<le> length [1, 2, 3, 4, 5, 6, 7, 8, 9 :: uint8_t]" by simp
  have h3: "length (token (m_packet (setCode GET CoapBuilder_new))) = 8"
    by (simp add: setCode_def CoapBuilder_new_def CoapPacket_clear_def)
  show ?thesis
    using setToken_truncates [OF h1 h2 h3, of insertion_sort CoapPacket_new "[]"] h1 h2
    by blast
qed

text \<open>
  A token of 9 bytes is not rejected: the build succeeds with the first 8 of them.
\<close>

theorem long_token_not_rejected:
  "validate (setToken [1, 2, 3, 4, 5, 6, 7, 8, 9] 9 (setCode GET CoapBuilder_new)) = OK \<and>
   fst (build insertion_sort
          (setToken [1, 2, 3, 4, 5, 6, 7, 8, 9] 9 (setCode GET CoapBuilder_new)) CoapPacket_new) = OK \<and>
   buildBuffer insertion_sort
          (setToken [1, 2, 3, 4, 5, 6, 7, 8, 9] 9 (setCode GET CoapBuilder_new)) []
     = (OK, setToken [1, 2, 3, 4, 5, 6, 7, 8, 9] 9 (setCode GET CoapBuilder_new),
        [0x48, 0x01, 0x00, 0x00, 1, 2, 3, 4, 5, 6, 7, 8])"
  by (simp add: validate_def build_def buildBuffer_def Let_def setToken_def CoapPacket_setToken_def
        setCode_def CoapBuilder_new_def CoapPacket_clear_def GET_def EMPTY_def getCodeClass_def
        isValidCodeClass_def MAX_PAYLOAD_SIZE_def COAP_VERSION_def memcpy_def sortOptions_def
        insertion_sort_def)

section \<open>The parser on arbitrary input\<close>

subsection \<open>Bytes after a complete message\<close>

lemma decode_Inl_not_OK: "decodeOptionDeltaLength b off f = Inl e \<Longrightarrow> e \<noteq> OK"
  by (auto simp add: decodeOptionDeltaLength_def split: if_splits)

lemma decode_append:
  "decodeOptionDeltaLength b off f = Inr r \<Longrightarrow> decodeOptionDeltaLength (b @ ext) off f = Inr r"
  by (auto simp add: decodeOptionDeltaLength_def nth_append split: if_splits)

lemma parseOptions_loop_step:
  assumes "offset < length buffer" "buffer ! offset \<noteq> PAYLOAD_MARKER"
    "decodeOptionDeltaLength buffer (offset + 1) (drop_bit 4 (buffer ! offset) AND 0x0F) = Inr (o1, delta)"
    "decodeOptionDeltaLength buffer o1 (buffer ! offset AND 0x0F) = Inr (o2, len)"
    "\<not> o2 + unat len > length buffer" "\<not> len > MAX_OPTION_VALUE_SIZE"
  shows "parseOptions_loop buffer offset lastNum acc =
           parseOptions_loop buffer (if len > 0 then o2 + unat len else o2) (lastNum + delta)
             (acc @ [\<lparr>number = lastNum + delta,
                      value = (if len > 0 then take (unat len) (drop o2 buffer) else [])\<rparr>])"
  using assms by (subst parseOptions_loop.simps) simp

lemma parseOptions_loop_extend:
  assumes "parseOptions_loop b off lastNum acc = (OK, off', opts, False)" and "off \<le> length b"
  shows "off' = length b \<and>
         (\<exists>n. parseOptions_loop (b @ ext) off lastNum acc
                = parseOptions_loop (b @ ext) (length b) n opts)"
  using assms
proof (induction b off lastNum acc rule: parseOptions_loop.induct)
  case (1 buffer offset lastOptionNumber acc)
  show ?case
  proof (cases "offset < length buffer")
    case False
    with "1.prems" show ?thesis
      by (auto simp add: parseOptions_loop.simps [of buffer offset])
  next
    case True
    from "1.prems"(1) True have nm: "buffer ! offset \<noteq> PAYLOAD_MARKER"
      by (auto simp add: parseOptions_loop.simps [of buffer offset] split: if_splits)
    obtain o1 delta where d1: "decodeOptionDeltaLength buffer (offset + 1)
        (drop_bit 4 (buffer ! offset) AND 0x0F) = Inr (o1, delta)"
      using "1.prems"(1) True nm decode_Inl_not_OK
      by (cases "decodeOptionDeltaLength buffer (offset + 1) (drop_bit 4 (buffer ! offset) AND 0x0F)")
         (auto simp add: parseOptions_loop.simps [of buffer offset])
    obtain o2 len where d2: "decodeOptionDeltaLength buffer o1 (buffer ! offset AND 0x0F) = Inr (o2, len)"
      using "1.prems"(1) True nm d1 decode_Inl_not_OK
      by (cases "decodeOptionDeltaLength buffer o1 (buffer ! offset AND 0x0F)")
         (auto simp add: parseOptions_loop.simps [of buffer offset])
    have fit: "\<not> o2 + unat len > length buffer" and lim: "\<not> len > MAX_OPTION_VALUE_SIZE"
      using "1.prems"(1) True nm d1 d2
      by (auto simp add: parseOptions_loop.simps [of buffer offset] split: if_splits)
    let ?off = "if len > 0 then o2 + unat len else o2"
    let ?acc = "acc @ [\<lparr>number = lastOptionNumber + delta,
                      value = (if len > 0 then take (unat len) (drop o2 buffer) else [])\<rparr>]"
    have rec: "parseOptions_loop buffer ?off (lastOptionNumber + delta) ?acc = (OK, off', opts, False)"
      using "1.prems"(1) parseOptions_loop_step [OF True nm d1 d2 fit lim] by simp
    have le: "?off \<le> length buffer" using fit by auto
    have o2le: "o2 \<le> length buffer" using fit by auto
    from "1.IH" [OF True nm d1 refl d2 refl fit lim rec le]
    obtain n where off': "off' = length buffer"
      and n: "parseOptions_loop (buffer @ ext) ?off (lastOptionNumber + delta) ?acc
              = parseOptions_loop (buffer @ ext) (length buffer) n opts"
      by blast
    have True': "offset < length (buffer @ ext)" using True by simp
    have nth: "(buffer @ ext) ! offset = buffer ! offset" using True by (simp add: nth_append)
    have tk: "take (unat len) (drop o2 (buffer @ ext)) = take (unat len) (drop o2 buffer)"
      using fit by simp
    have "parseOptions_loop (buffer @ ext) offset lastOptionNumber acc
            = parseOptions_loop (buffer @ ext) ?off (lastOptionNumber + delta) ?acc"
      using parseOptions_loop_step [of offset "buffer @ ext" o1 delta o2 len lastOptionNumber acc]
        True' nm decode_append [OF d1, of ext] decode_append [OF d2, of ext] fit lim
      by (simp add: nth tk)
    with n off' show ?thesis by auto
  qed
qed

lemma parse_finish_OK_no_payload:
  assumes "parse_finish buffer pk r = (OK, pkt)" and "payload pkt = []" and "payload pk = []"
  shows "\<exists>off. r = (OK, off, options pkt, False)" and "pkt = pk\<lparr>options := options pkt\<rparr>"
  using assms by (auto simp add: parse_finish_def split: prod.splits if_splits)

lemma header_packet_append:
  assumes "4 + unat (pre ! 0 AND 0x0F) \<le> length pre"
  shows "header_packet (pre @ rest) = header_packet pre"
proof -
  have "\<And>i. i < 4 \<Longrightarrow> (pre @ rest) ! i = pre ! i"
    using assms by (simp add: nth_append)
  then have n: "(pre @ rest) ! 0 = pre ! 0" "(pre @ rest) ! 1 = pre ! 1"
    "(pre @ rest) ! 2 = pre ! 2" "(pre @ rest) ! 3 = pre ! 3"
    by simp_all
  have "take (unat (pre ! 0 AND 0x0F)) (drop 4 (pre @ rest))
          = take (unat (pre ! 0 AND 0x0F)) (drop 4 pre)"
    using assms by simp
  then show ?thesis
    unfolding header_packet_def n by (simp add: memcpy_def)
qed

lemma parse_extend:
  assumes ok: "parse pre p = (OK, pkt)" and np: "payload pkt = []" and ne: "rest \<noteq> []"
  shows "\<exists>n. parse (pre @ rest) p0
              = parse_finish (pre @ rest) (header_packet pre)
                  (parseOptions_loop (pre @ rest) (length pre) n (options pkt))"
proof -
  define tkl where "tkl = pre ! 0 AND 0x0F"
  note pa = parse_alt [of pre p, folded tkl_def]
  have a: "\<not> length pre < 4" using ok by (auto simp add: pa split: if_splits)
  have b: "\<not> drop_bit 6 (pre ! 0) AND 0x03 \<noteq> COAP_VERSION"
    using ok a by (auto simp add: pa split: if_splits)
  have c: "\<not> tkl > 8" using ok a b by (auto simp add: pa split: if_splits)
  have d: "isValidCodeClass (getCodeClass (pre ! 1))"
    using ok a b c by (auto simp add: pa split: if_splits)
  have e: "\<not> 4 + unat tkl > length pre"
    using ok a b c d by (auto simp add: pa split: if_splits)
  have fin: "parse_finish pre (header_packet pre)
               (if 4 + unat tkl < length pre then parseOptions pre (4 + unat tkl) []
                else (OK, 4 + unat tkl, [], False)) = (OK, pkt)"
    using ok a b c d e by (simp add: pa)
  have hp0: "payload (header_packet pre) = []" by (simp add: header_packet_def)
  from parse_finish_OK_no_payload(1) [OF fin np hp0]
  obtain off where r: "(if 4 + unat tkl < length pre then parseOptions pre (4 + unat tkl) []
                else (OK, 4 + unat tkl, [], False)) = (OK, off, options pkt, False)"
    by blast
  have n: "\<And>i. i < 4 \<Longrightarrow> (pre @ rest) ! i = pre ! i"
    using a by (simp add: nth_append)
  have n0: "(pre @ rest) ! 0 = pre ! 0" "(pre @ rest) ! Suc 0 = pre ! Suc 0"
    using n by simp_all
  have hpa: "header_packet (pre @ rest) = header_packet pre"
    using e by (intro header_packet_append) (simp add: tkl_def)
  have lt: "4 + unat tkl < length (pre @ rest)" using e ne by (cases rest) auto
  have pa2: "parse (pre @ rest) p0
               = parse_finish (pre @ rest) (header_packet pre)
                   (parseOptions (pre @ rest) (4 + unat tkl) [])"
    using a b c d e lt
    by (simp add: parse_alt [of "pre @ rest" p0] n0 tkl_def [symmetric] hpa)
  have "\<exists>n. parseOptions (pre @ rest) (4 + unat tkl) []
              = parseOptions_loop (pre @ rest) (length pre) n (options pkt)"
  proof (cases "4 + unat tkl < length pre")
    case True
    with r have "parseOptions_loop pre (4 + unat tkl) 0 [] = (OK, off, options pkt, False)"
      by (simp add: parseOptions_def)
    from parseOptions_loop_extend [OF this, of rest] True
    show ?thesis by (auto simp add: parseOptions_def)
  next
    case False
    with e have eq: "4 + unat tkl = length pre" by simp
    from False r have "options pkt = []" by simp
    then show ?thesis
      by (auto simp add: parseOptions_def eq)
  qed
  with pa2 show ?thesis by auto
qed

text \<open>
  C8. A buffer ends with the payload marker in option-header position exactly when what
  precedes the marker is a complete message without payload: header, token and whole
  options, which is a buffer that \<open>parse\<close> accepts with an empty payload. For every
  such buffer followed by the single byte \<open>0xFF\<close>, \<open>parse\<close> returns the invalid-format
  error.
\<close>

theorem trailing_marker_invalid:
  assumes "parse pre p = (OK, pkt)" and "payload pkt = []"
  shows "fst (parse (pre @ [PAYLOAD_MARKER]) p0) = INVALID_FORMAT"
proof -
  obtain n where
    "parse (pre @ [PAYLOAD_MARKER]) p0
       = parse_finish (pre @ [PAYLOAD_MARKER]) (header_packet pre)
           (parseOptions_loop (pre @ [PAYLOAD_MARKER]) (length pre) n (options pkt))"
    using parse_extend [OF assms, of "[PAYLOAD_MARKER]" p0] by auto
  moreover have "parseOptions_loop (pre @ [PAYLOAD_MARKER]) (length pre) n (options pkt)
                   = (OK, length pre + 1, options pkt, True)"
    by (simp add: parseOptions_loop.simps [of _ "length pre"])
  ultimately show ?thesis
    by (simp add: parse_finish_def)
qed

theorem trailing_marker_invalid_witness:
  "fst (parse ([0x40, 0x01, 0x00, 0x00, 0xB1, 0x61] @ [PAYLOAD_MARKER]) CoapPacket_new)
     = INVALID_FORMAT"
proof -
  have h: "parse [0x40, 0x01, 0x00, 0x00, 0xB1, 0x61] CoapPacket_new
             = (OK, (header_packet [0x40, 0x01, 0x00, 0x00, 0xB1, 0x61])
                      \<lparr>options := [\<lparr>number = 11, value = [0x61]\<rparr>]\<rparr>)"
    by (simp add: parse_alt parse_finish_def parseOptions_def parseOptions_loop.simps
          decodeOptionDeltaLength_def COAP_VERSION_def getCodeClass_def isValidCodeClass_def
          PAYLOAD_MARKER_def MAX_OPTION_VALUE_SIZE_def)
  have h2: "payload ((header_packet [0x40, 0x01, 0x00, 0x00, 0xB1, 0x61])
                      \<lparr>options := [\<lparr>number = 11, value = [0x61]\<rparr>]\<rparr>) = []"
    by (simp add: header_packet_def)
  show ?thesis
    using trailing_marker_invalid [OF h h2, of CoapPacket_new] by simp
qed

subsection \<open>An option whose length field exceeds the limit\<close>

lemma unat_byte_pair:
  "unat (push_bit 8 (ucast (a :: uint8_t)) OR ucast (b :: uint8_t) :: uint16_t)
     = 256 * unat a + unat b"
proof -
  have "(push_bit 8 (ucast a) OR ucast b :: uint16_t) = push_bit 8 (ucast a) + ucast b"
    by (rule disjunctive_add [symmetric]) (auto simp add: bit_simps dest: bit_imp_le_length)
  also have "unat \<dots> = 256 * unat a + unat b"
    using unsigned_less [of a, where 'a = nat] unsigned_less [of b, where 'a = nat]
    by (simp add: unat_word_ariths push_bit_eq_mult unsigned_ucast_eq take_bit_nat_eq_self)
  finally show ?thesis .
qed

lemma spec_field_value_big:
  assumes "spec_field_value nibble ext = Some L" and "268 < L"
  shows "nibble = 14 \<and> (\<exists>e1 e2 r. ext = e1 # e2 # r \<and> L = 256 * unat e1 + unat e2 + 269)"
proof -
  have a: "\<not> 255 < unat e" for e :: uint8_t
    using unsigned_less [of e, where 'a = nat] by simp
  show ?thesis
    using assms
    by (auto simp add: spec_field_value_def word_less_nat_alt a split: if_splits list.splits)
qed

lemma decode_length_field:
  assumes sf: "spec_field_value nibble (drop o1 buffer) = Some L" and big: "268 < L"
  shows "decodeOptionDeltaLength buffer o1 nibble = Inr (o1 + 2, of_nat L)"
proof -
  from spec_field_value_big [OF sf big] obtain e1 e2 r where
    n: "nibble = 14" and d: "drop o1 buffer = e1 # e2 # r"
    and L: "L = 256 * unat e1 + unat e2 + 269"
    by blast
  have len: "o1 + 1 < length buffer"
  proof (rule ccontr)
    assume "\<not> o1 + 1 < length buffer"
    then have "length (drop o1 buffer) \<le> 1" by simp
    with d show False by simp
  qed
  have e1: "buffer ! o1 = e1"
    using d len by (metis Cons_nth_drop_Suc add_lessD1 list.inject)
  have e2: "buffer ! (o1 + 1) = e2"
  proof -
    have "drop (o1 + 1) buffer = e2 # r"
      using d by (metis Suc_eq_plus1 drop_Suc list.sel(3) tl_drop)
    then show ?thesis
      using len by (metis Cons_nth_drop_Suc list.inject)
  qed
  have "(push_bit 8 (ucast e1) OR ucast e2 :: uint16_t) + 269 = of_nat L"
  proof -
    have "(push_bit 8 (ucast e1) OR ucast e2 :: uint16_t)
            = of_nat (unat (push_bit 8 (ucast e1) OR ucast e2 :: uint16_t))"
      by simp
    also have "\<dots> = of_nat (256 * unat e1 + unat e2)"
      by (simp only: unat_byte_pair)
    finally show ?thesis
      by (simp add: L)
  qed
  with n len e1 e2 show ?thesis
    by (simp add: decodeOptionDeltaLength_def)
qed

text \<open>
  C7, as the code has it. Let the parser reach an option header (after the header, the
  token and zero or more whole options) whose length field has, read as the
  specification of the option header reads it, a value \<open>L\<close> with \<open>1034 < L\<close> and
  \<open>L \<le> 65535\<close>. The parser first checks that \<open>L\<close> value bytes remain after the length
  field, and only then the limit: \<open>parse\<close> returns the datagram-too-short error when
  fewer than \<open>L\<close> bytes remain, and the option-too-long error otherwise. From 65536 to
  65804 the decoder, which computes in \<open>uint16_t\<close>, returns \<open>L - 65536\<close>
  (\<open>decode_length_field\<close>), and the statement says nothing of those length fields.
\<close>

theorem option_length_limit:
  assumes ok: "parse pre p = (OK, pkt)" and np: "payload pkt = []"
    and buf: "buffer = pre @ rest" and lt: "length pre < length buffer"
    and nm: "buffer ! length pre \<noteq> PAYLOAD_MARKER"
    and d1: "decodeOptionDeltaLength buffer (length pre + 1)
               (drop_bit 4 (buffer ! length pre) AND 0x0F) = Inr (o1, delta)"
    and sf: "spec_field_value (buffer ! length pre AND 0x0F) (drop o1 buffer) = Some L"
    and big: "1034 < L" and fit: "L < 65536"
  shows "fst (parse buffer p0)
           = (if length buffer - (o1 + 2) < L then DATAGRAM_TOO_SHORT else OPTION_TOO_LONG)"
proof -
  have ne: "rest \<noteq> []" using buf lt by auto
  obtain n where
    pe: "parse buffer p0 = parse_finish buffer (header_packet pre)
           (parseOptions_loop buffer (length pre) n (options pkt))"
    using parse_extend [OF ok np ne, of p0] buf by auto
  have d2: "decodeOptionDeltaLength buffer o1 (buffer ! length pre AND 0x0F)
              = Inr (o1 + 2, of_nat L)"
    using decode_length_field [OF sf] big by simp
  have u: "unat (of_nat L :: uint16_t) = L"
    using fit by (simp add: unat_of_nat)
  have gt: "(of_nat L :: uint16_t) > MAX_OPTION_VALUE_SIZE"
    using big u by (simp add: word_less_nat_alt MAX_OPTION_VALUE_SIZE_def)
  from spec_field_value_big [OF sf] big have "o1 + 2 \<le> length buffer"
  proof -
    obtain e1 e2 r where "drop o1 buffer = e1 # e2 # r"
      using spec_field_value_big [OF sf] big by force
    then have "2 \<le> length (drop o1 buffer)" by simp
    then show ?thesis by simp
  qed
  then have c: "(o1 + 2 + L > length buffer) = (length buffer - (o1 + 2) < L)"
    by auto
  have r: "fst (parse buffer p0)
             = (if o1 + 2 + L > length buffer then DATAGRAM_TOO_SHORT else OPTION_TOO_LONG)"
    if "parseOptions_loop buffer (length pre) n (options pkt)
          = (if o1 + 2 + L > length buffer then (DATAGRAM_TOO_SHORT, o1 + 2, options pkt, False)
             else (OPTION_TOO_LONG, o1 + 2, options pkt, False))"
    using that by (simp add: pe parse_finish_def)
  have "parseOptions_loop buffer (length pre) n (options pkt)
          = (if o1 + 2 + L > length buffer then (DATAGRAM_TOO_SHORT, o1 + 2, options pkt, False)
             else (OPTION_TOO_LONG, o1 + 2, options pkt, False))"
    using lt nm d1 d2 gt u by (subst parseOptions_loop.simps) simp
  from r [OF this] show ?thesis
    by (simp only: c)
qed

theorem option_length_limit_witness:
  "fst (parse ([0x40, 0x01, 0x00, 0x00] @ [0x0E, 0x02, 0xFE] @ replicate 1035 0) CoapPacket_new)
     = OPTION_TOO_LONG \<and>
   fst (parse ([0x40, 0x01, 0x00, 0x00] @ [0x0E, 0x02, 0xFE] @ replicate 1034 0) CoapPacket_new)
     = DATAGRAM_TOO_SHORT"
proof -
  let ?pre = "[0x40, 0x01, 0x00, 0x00] :: uint8_t list"
  have ok: "parse ?pre CoapPacket_new = (OK, header_packet ?pre)"
    by (simp add: parse_alt parse_finish_def COAP_VERSION_def getCodeClass_def
          isValidCodeClass_def header_packet_def)
  have np: "payload (header_packet ?pre) = []" by (simp add: header_packet_def)
  have r: "fst (parse (?pre @ [0x0E, 0x02, 0xFE] @ replicate n 0) CoapPacket_new)
             = (if length (?pre @ [0x0E, 0x02, 0xFE] @ replicate n 0) - (5 + 2) < 1035
                then DATAGRAM_TOO_SHORT else OPTION_TOO_LONG)" for n
  proof (rule option_length_limit [OF ok np refl])
    show "length ?pre < length (?pre @ [0x0E, 0x02, 0xFE] @ replicate n 0)" by simp
    show "(?pre @ [0x0E, 0x02, 0xFE] @ replicate n 0) ! length ?pre \<noteq> PAYLOAD_MARKER"
      by (simp add: PAYLOAD_MARKER_def)
    show "decodeOptionDeltaLength (?pre @ [0x0E, 0x02, 0xFE] @ replicate n 0) (length ?pre + 1)
            (drop_bit 4 ((?pre @ [0x0E, 0x02, 0xFE] @ replicate n 0) ! length ?pre) AND 0x0F)
          = Inr (5, 0)"
      by (simp add: decodeOptionDeltaLength_def)
    show "spec_field_value ((?pre @ [0x0E, 0x02, 0xFE] @ replicate n 0) ! length ?pre AND 0x0F)
            (drop 5 (?pre @ [0x0E, 0x02, 0xFE] @ replicate n 0)) = Some 1035"
      by (simp add: spec_field_value_def)
    show "(1034 :: nat) < 1035" by simp
    show "(1035 :: nat) < 65536" by simp
  qed
  show ?thesis
    using r [of 1035] r [of 1034] by simp
qed

text \<open>
  Where C7 fails. A length field of 1035 with no value byte after it yields
  datagram-too-short, not option-too-long. And the length field \<open>0xE\<close> \<open>0xFE 0xF3\<close>,
  which reads as 65536, is taken for the length 0: \<open>parse\<close> accepts the buffer, with
  one option of number 0 and an empty value.
\<close>

theorem option_length_short_buffer:
  "spec_field_value (0x0E AND 0x0F) [0x02, 0xFE] = Some 1035 \<and>
   fst (parse [0x40, 0x01, 0x00, 0x00, 0x0E, 0x02, 0xFE] CoapPacket_new) = DATAGRAM_TOO_SHORT \<and>
   spec_field_value (0x0E AND 0x0F) [0xFE, 0xF3] = Some 65536 \<and>
   fst (parse [0x40, 0x01, 0x00, 0x00, 0x0E, 0xFE, 0xF3] CoapPacket_new) = OK \<and>
   options (snd (parse [0x40, 0x01, 0x00, 0x00, 0x0E, 0xFE, 0xF3] CoapPacket_new))
     = [\<lparr>number = 0, value = []\<rparr>]"
  by (simp add: parse_alt parse_finish_def parseOptions_def parseOptions_loop.simps
        decodeOptionDeltaLength_def COAP_VERSION_def getCodeClass_def isValidCodeClass_def
        PAYLOAD_MARKER_def MAX_OPTION_VALUE_SIZE_def spec_field_value_def)

subsection \<open>The packet after a failure\<close>

lemma decode_take:
  assumes "decodeOptionDeltaLength b off f = Inr (o', v)" and "o' \<le> m"
  shows "decodeOptionDeltaLength (take m b) off f = Inr (o', v)"
  using assms by (auto simp add: decodeOptionDeltaLength_def split: if_splits)

lemma decode_of_take:
  assumes "decodeOptionDeltaLength (take m b) off f = Inr r"
  shows "decodeOptionDeltaLength b off f = Inr r"
  using decode_append [OF assms, of "drop m b"] by simp

lemma decode_offset_mono:
  "decodeOptionDeltaLength b off f = Inr (o', v) \<Longrightarrow> off \<le> o'"
  by (auto simp add: decodeOptionDeltaLength_def split: if_splits)

lemma stops_at_take:
  assumes s: "stops_at b n" and nm: "n < m"
  shows "stops_at (take m b) n"
proof -
  from s have nb: "n < length b" by (simp add: stops_at_def)
  have nl: "n < length (take m b)" using nb nm by simp
  have nth: "take m b ! n = b ! n" using nm by simp
  show ?thesis
  proof (cases "b ! n = PAYLOAD_MARKER")
    case True
    then show ?thesis using nl nth by (simp add: stops_at_def)
  next
    case False
    show ?thesis
    proof (cases "decodeOptionDeltaLength (take m b) (n + 1) (drop_bit 4 (b ! n) AND 0x0F)")
      case (Inl e)
      then show ?thesis using nl nth by (simp add: stops_at_def)
    next
      case (Inr r)
      obtain o1 delta where r: "r = (o1, delta)" by (cases r)
      have d1: "decodeOptionDeltaLength b (n + 1) (drop_bit 4 (b ! n) AND 0x0F) = Inr (o1, delta)"
        using decode_of_take Inr r by blast
      show ?thesis
      proof (cases "decodeOptionDeltaLength (take m b) o1 (b ! n AND 0x0F)")
        case (Inl e)
        then show ?thesis using nl nth Inr r by (simp add: stops_at_def)
      next
        case inr2: (Inr r2)
        obtain o2 len where r2: "r2 = (o2, len)" by (cases r2)
        have d2: "decodeOptionDeltaLength b o1 (b ! n AND 0x0F) = Inr (o2, len)"
          using decode_of_take inr2 r2 by blast
        from s False d1 d2 have "o2 + unat len > length b \<or> len > MAX_OPTION_VALUE_SIZE"
          by (simp add: stops_at_def)
        then have "o2 + unat len > length (take m b) \<or> len > MAX_OPTION_VALUE_SIZE"
          by auto
        then show ?thesis
          using nl nth Inr r inr2 r2 by (simp add: stops_at_def)
      qed
    qed
  qed
qed

lemma stops_at_loop:
  assumes "stops_at b n"
  shows "parseOptions_loop b n l a = (OK, n + 1, a, True) \<or>
         (\<exists>e off. e \<noteq> OK \<and> parseOptions_loop b n l a = (e, off, a, False))"
  using assms decode_Inl_not_OK
  by (subst (1 2) parseOptions_loop.simps)
     (auto simp add: stops_at_def split: sum.splits prod.splits)

lemma parseOptions_loop_stops:
  assumes "parseOptions_loop b off lastNum acc = (err, off', opts, hp)" and "err \<noteq> OK \<or> hp"
  shows "\<exists>n. off \<le> n \<and> stops_at b n \<and>
              parseOptions_loop (take n b) off lastNum acc = (OK, n, opts, False)"
  using assms
proof (induction b off lastNum acc rule: parseOptions_loop.induct)
  case (1 buffer offset lastOptionNumber acc)
  have inb: "offset < length buffer"
    using "1.prems" by (auto simp add: parseOptions_loop.simps [of buffer offset] split: if_splits)
  have here: "stops_at buffer offset \<Longrightarrow> ?case"
  proof -
    assume s: "stops_at buffer offset"
    have "opts = acc"
      using stops_at_loop [OF s, of lastOptionNumber acc] "1.prems"(1) by auto
    moreover have "parseOptions_loop (take offset buffer) offset lastOptionNumber acc
            = (OK, offset, acc, False)"
      by (simp add: parseOptions_loop.simps [of _ offset])
    ultimately show ?thesis using s by blast
  qed
  show ?case
  proof (cases "stops_at buffer offset")
    case True
    then show ?thesis by (rule here)
  next
    case False
    from False inb have nm: "buffer ! offset \<noteq> PAYLOAD_MARKER"
      by (auto simp add: stops_at_def)
    obtain o1 delta where d1: "decodeOptionDeltaLength buffer (offset + 1)
        (drop_bit 4 (buffer ! offset) AND 0x0F) = Inr (o1, delta)"
      using False inb nm
      by (cases "decodeOptionDeltaLength buffer (offset + 1) (drop_bit 4 (buffer ! offset) AND 0x0F)")
         (auto simp add: stops_at_def)
    obtain o2 len where d2: "decodeOptionDeltaLength buffer o1 (buffer ! offset AND 0x0F) = Inr (o2, len)"
      using False inb nm d1
      by (cases "decodeOptionDeltaLength buffer o1 (buffer ! offset AND 0x0F)")
         (auto simp add: stops_at_def)
    have fit: "\<not> o2 + unat len > length buffer" and lim: "\<not> len > MAX_OPTION_VALUE_SIZE"
      using False inb nm d1 d2 by (auto simp add: stops_at_def)
    let ?off = "if len > 0 then o2 + unat len else o2"
    let ?acc = "acc @ [\<lparr>number = lastOptionNumber + delta,
                      value = (if len > 0 then take (unat len) (drop o2 buffer) else [])\<rparr>]"
    have rec: "parseOptions_loop buffer ?off (lastOptionNumber + delta) ?acc = (err, off', opts, hp)"
      using "1.prems"(1) parseOptions_loop_step [OF inb nm d1 d2 fit lim] by simp
    from "1.IH" [OF inb nm d1 refl d2 refl fit lim rec "1.prems"(2)]
    obtain n where n1: "?off \<le> n" and n2: "stops_at buffer n"
      and n3: "parseOptions_loop (take n buffer) ?off (lastOptionNumber + delta) ?acc
                 = (OK, n, opts, False)"
      by blast
    have o12: "offset + 1 \<le> o1" "o1 \<le> o2"
      using decode_offset_mono [OF d1] decode_offset_mono [OF d2] by simp_all
    have len0: "\<not> len > 0 \<Longrightarrow> unat len = 0"
      by (simp add: word_less_nat_alt)
    have o2n: "o2 + unat len \<le> n" using n1 len0 by (cases "len > 0") auto
    have offn: "offset < n" using o12 o2n by simp
    have nb: "n < length buffer" using n2 by (simp add: stops_at_def)
    have l1: "offset < length (take n buffer)" using offn nb by simp
    have nth: "take n buffer ! offset = buffer ! offset" using offn by simp
    have d1': "decodeOptionDeltaLength (take n buffer) (offset + 1)
        (drop_bit 4 (take n buffer ! offset) AND 0x0F) = Inr (o1, delta)"
      unfolding nth using d1 o12 o2n by (intro decode_take) auto
    have d2': "decodeOptionDeltaLength (take n buffer) o1 (take n buffer ! offset AND 0x0F)
                 = Inr (o2, len)"
      unfolding nth using d2 o2n by (intro decode_take) auto
    have fit': "\<not> o2 + unat len > length (take n buffer)" using o2n nb by simp
    have tk: "take (unat len) (drop o2 (take n buffer)) = take (unat len) (drop o2 buffer)"
      using o2n by (simp add: drop_take)
    have "parseOptions_loop (take n buffer) offset lastOptionNumber acc
            = parseOptions_loop (take n buffer) ?off (lastOptionNumber + delta) ?acc"
      using parseOptions_loop_step [OF l1 _ d1' d2' fit' lim, of lastOptionNumber acc] nm
      by (simp add: nth tk)
    with n3 have "parseOptions_loop (take n buffer) offset lastOptionNumber acc = (OK, n, opts, False)"
      by simp
    moreover have "offset \<le> n" using offn by simp
    ultimately show ?thesis using n2 by blast
  qed
qed

lemma parse_stops_payload:
  assumes ok: "parse pre p = (OK, pkt)" and np: "payload pkt = []" and ne: "rest \<noteq> []"
    and s: "stops_at (pre @ rest) (length pre)" and r: "parse (pre @ rest) p0 = (OK, q)"
  shows "payload q \<noteq> []"
proof -
  obtain k where
    pe: "parse (pre @ rest) p0
           = parse_finish (pre @ rest) (header_packet pre)
               (parseOptions_loop (pre @ rest) (length pre) k (options pkt))"
    using parse_extend [OF ok np ne, of p0] by auto
  from stops_at_loop [OF s, of k "options pkt"] show ?thesis
  proof
    assume "parseOptions_loop (pre @ rest) (length pre) k (options pkt)
              = (OK, length pre + 1, options pkt, True)"
    with pe r show ?thesis
      by (auto simp add: parse_finish_def split: if_splits)
  next
    assume "\<exists>e off. e \<noteq> OK \<and>
              parseOptions_loop (pre @ rest) (length pre) k (options pkt)
                = (e, off, options pkt, False)"
    with pe r show ?thesis
      by (auto simp add: parse_finish_def split: if_splits)
  qed
qed

lemma parse_failure_prefix:
  assumes f: "fst (parse buffer p0) \<noteq> OK"
    and a: "4 \<le> length buffer" and b: "drop_bit 6 (buffer ! 0) AND 0x03 = COAP_VERSION"
    and c: "buffer ! 0 AND 0x0F \<le> 8" and d: "isValidCodeClass (getCodeClass (buffer ! 1))"
    and e: "4 + unat (buffer ! 0 AND 0x0F) \<le> length buffer"
  shows "\<exists>n. 4 + unat (buffer ! 0 AND 0x0F) \<le> n \<and> n < length buffer \<and>
             stops_at buffer n \<and>
             parse (take n buffer) p1 = (OK, snd (parse buffer p0)) \<and>
             snd (parse buffer p0) = (header_packet buffer)\<lparr>options := options (snd (parse buffer p0))\<rparr>"
proof -
  define T where "T = 4 + unat (buffer ! 0 AND 0x0F)"
  have c': "\<not> 8 < buffer ! 0 AND 0x0F" using c by simp
  have pa: "parse buffer p0 = parse_finish buffer (header_packet buffer)
             (if T < length buffer then parseOptions buffer T [] else (OK, T, [], False))"
    using a b c' d e by (simp add: parse_alt [of buffer p0] T_def)
  have lt: "T < length buffer"
    using f pa by (auto simp add: parse_finish_def split: if_splits)
  obtain err off opts hp where po: "parseOptions_loop buffer T 0 [] = (err, off, opts, hp)"
    by (cases "parseOptions_loop buffer T 0 []") auto
  have pf: "parse buffer p0 = parse_finish buffer (header_packet buffer) (err, off, opts, hp)"
    using pa lt po by (simp add: parseOptions_def)
  have stop: "err \<noteq> OK \<or> hp"
    using f pf by (auto simp add: parse_finish_def split: if_splits)
  have res: "snd (parse buffer p0) = (header_packet buffer)\<lparr>options := opts\<rparr>"
    using f pf by (auto simp add: parse_finish_def split: if_splits)
  from parseOptions_loop_stops [OF po stop] obtain n where
    n1: "T \<le> n" and n2: "stops_at buffer n"
    and n3: "parseOptions_loop (take n buffer) T 0 [] = (OK, n, opts, False)"
    by blast
  have nb: "n < length buffer" using n2 by (simp add: stops_at_def)
  have n4: "4 \<le> n" using n1 by (simp add: T_def)
  have nth: "take n buffer ! 0 = buffer ! 0" "take n buffer ! Suc 0 = buffer ! Suc 0"
    using n4 by simp_all
  have hp': "header_packet (take n buffer) = header_packet buffer"
    using header_packet_append [of "take n buffer" "drop n buffer"] n1 nb nth
    by (simp add: T_def)
  have o0: "opts = []" if "T = n"
    using n3 that by (simp add: parseOptions_loop.simps [of _ n])
  have "parse (take n buffer) p1
          = parse_finish (take n buffer) (header_packet buffer)
              (if T < n then parseOptions (take n buffer) T [] else (OK, T, [], False))"
    using a b c' d n1 n4 nb
    by (simp add: parse_alt [of "take n buffer" p1] nth hp' T_def [symmetric])
  also have "\<dots> = (OK, (header_packet buffer)\<lparr>options := opts\<rparr>)"
    using n1 n3 o0 by (cases "T < n") (auto simp add: parse_finish_def parseOptions_def)
  finally have "parse (take n buffer) p1 = (OK, snd (parse buffer p0))"
    by (simp add: res)
  moreover have "snd (parse buffer p0)
                   = (header_packet buffer)\<lparr>options := options (snd (parse buffer p0))\<rparr>"
    by (simp add: res)
  ultimately show ?thesis
    using n1 n2 nb unfolding T_def by blast
qed

lemma parse_longer_prefix:
  assumes ok: "parse (take n buffer) p = (OK, pkt)" and np: "payload pkt = []"
    and s: "stops_at buffer n" and nm: "n < m"
    and r: "parse (take m buffer) p0 = (OK, q)"
  shows "payload q \<noteq> []"
proof -
  have nb: "n < length buffer" using s by (simp add: stops_at_def)
  have sp: "take m buffer = take n buffer @ take (m - n) (drop n buffer)"
    using nm by (metis add_diff_cancel_left' less_imp_add_positive take_add)
  have ne: "take (m - n) (drop n buffer) \<noteq> []" using nm nb by simp
  have ln: "length (take n buffer) = n" using nb by simp
  have "stops_at (take m buffer) n" using s nm by (rule stops_at_take)
  then have s': "stops_at (take n buffer @ take (m - n) (drop n buffer)) (length (take n buffer))"
    using sp ln by simp
  show ?thesis
    using parse_stops_payload [OF ok np ne s', of p0 q] r sp by simp
qed

lemma header_packet_fields:
  "header_packet buffer
     = CoapPacket_new\<lparr>type := CoapType_of_uint8 (drop_bit 4 (buffer ! 0) AND 0x03),
                       token_length := buffer ! 0 AND 0x0F, code := buffer ! 1,
                       message_id := push_bit 8 (ucast (buffer ! 2)) OR ucast (buffer ! 3),
                       token := take (unat (buffer ! 0 AND 0x0F)) (drop 4 buffer)
                                  @ replicate (8 - unat (buffer ! 0 AND 0x0F)) 0\<rparr>"
  by (simp add: header_packet_def CoapPacket_new_def memcpy_def)

text \<open>
  C5, as the code has it. \<open>parse\<close> writes into the caller's packet. When it fails, the
  caller has the error code and a packet that does not depend on what it held before
  the call, with the protocol version and an empty payload, and with exactly the fields
  that were decoded before the failure. It is the default packet when the buffer has
  fewer than 4 bytes or another version; the default packet with the type and the token
  length of the first byte when that token length exceeds 8; with the code in addition
  when the class of the code is reserved; with the message id in addition when the
  buffer ends before the token does. After that it holds header and token (padded with
  zeros to 8 bytes) and the options decoded before the failure: it is the packet that
  \<open>parse\<close> returns, successfully, for a proper prefix of the buffer that holds at
  least header and token, and no longer prefix of the buffer is accepted without
  payload.
\<close>

theorem parse_failure_packet:
  assumes f: "parse buffer p0 = (err, p)" and e: "err \<noteq> OK"
  shows "parse buffer p1 = (err, p) \<and> version p = COAP_VERSION \<and> payload p = [] \<and>
     (if length buffer < 4 \<or> drop_bit 6 (buffer ! 0) AND 0x03 \<noteq> COAP_VERSION
        then p = CoapPacket_new
      else if 8 < buffer ! 0 AND 0x0F
        then p = CoapPacket_new\<lparr>type := CoapType_of_uint8 (drop_bit 4 (buffer ! 0) AND 0x03),
                                 token_length := buffer ! 0 AND 0x0F\<rparr>
      else if \<not> isValidCodeClass (getCodeClass (buffer ! 1))
        then p = CoapPacket_new\<lparr>type := CoapType_of_uint8 (drop_bit 4 (buffer ! 0) AND 0x03),
                                 token_length := buffer ! 0 AND 0x0F, code := buffer ! 1\<rparr>
      else if length buffer < 4 + unat (buffer ! 0 AND 0x0F)
        then p = CoapPacket_new\<lparr>type := CoapType_of_uint8 (drop_bit 4 (buffer ! 0) AND 0x03),
                                 token_length := buffer ! 0 AND 0x0F, code := buffer ! 1,
                                 message_id := push_bit 8 (ucast (buffer ! 2)) OR ucast (buffer ! 3)\<rparr>
      else p = CoapPacket_new\<lparr>type := CoapType_of_uint8 (drop_bit 4 (buffer ! 0) AND 0x03),
                               token_length := buffer ! 0 AND 0x0F, code := buffer ! 1,
                               message_id := push_bit 8 (ucast (buffer ! 2)) OR ucast (buffer ! 3),
                               token := take (unat (buffer ! 0 AND 0x0F)) (drop 4 buffer)
                                          @ replicate (8 - unat (buffer ! 0 AND 0x0F)) 0,
                               options := options p\<rparr> \<and>
           (\<exists>n. 4 + unat (buffer ! 0 AND 0x0F) \<le> n \<and> n < length buffer \<and>
                 parse (take n buffer) p1 = (OK, p) \<and>
                 (\<forall>m q. n < m \<and> parse (take m buffer) p1 = (OK, q) \<longrightarrow> payload q \<noteq> [])))"
proof -
  have indep: "parse buffer p1 = (err, p)"
    using f by (simp only: parse_alt [of buffer p1] parse_alt [of buffer p0])
  have fp: "fst (parse buffer p0) \<noteq> OK" and sp: "snd (parse buffer p0) = p"
    using f e by simp_all
  consider (s1) "length buffer < 4 \<or> drop_bit 6 (buffer ! 0) AND 0x03 \<noteq> COAP_VERSION"
    | (s2) "\<not> length buffer < 4" "drop_bit 6 (buffer ! 0) AND 0x03 = COAP_VERSION"
           "8 < buffer ! 0 AND 0x0F"
    | (s3) "\<not> length buffer < 4" "drop_bit 6 (buffer ! 0) AND 0x03 = COAP_VERSION"
           "\<not> 8 < buffer ! 0 AND 0x0F" "\<not> isValidCodeClass (getCodeClass (buffer ! 1))"
    | (s4) "\<not> length buffer < 4" "drop_bit 6 (buffer ! 0) AND 0x03 = COAP_VERSION"
           "\<not> 8 < buffer ! 0 AND 0x0F" "isValidCodeClass (getCodeClass (buffer ! 1))"
           "length buffer < 4 + unat (buffer ! 0 AND 0x0F)"
    | (s5) "\<not> length buffer < 4" "drop_bit 6 (buffer ! 0) AND 0x03 = COAP_VERSION"
           "\<not> 8 < buffer ! 0 AND 0x0F" "isValidCodeClass (getCodeClass (buffer ! 1))"
           "\<not> length buffer < 4 + unat (buffer ! 0 AND 0x0F)"
    by blast
  then show ?thesis
  proof cases
    case s1
    then have "p = CoapPacket_new"
      using f by (auto simp add: parse_alt [of buffer p0] split: if_splits)
    with s1 indep show ?thesis
      by (simp add: CoapPacket_new_def)
  next
    case s2
    then have "p = CoapPacket_new\<lparr>type := CoapType_of_uint8 (drop_bit 4 (buffer ! 0) AND 0x03),
                                 token_length := buffer ! 0 AND 0x0F\<rparr>"
      using f by (simp add: parse_alt [of buffer p0])
    with s2 indep show ?thesis
      by (simp add: CoapPacket_new_def)
  next
    case s3
    then have "p = CoapPacket_new\<lparr>type := CoapType_of_uint8 (drop_bit 4 (buffer ! 0) AND 0x03),
                                 token_length := buffer ! 0 AND 0x0F, code := buffer ! 1\<rparr>"
      using f by (simp add: parse_alt [of buffer p0])
    with s3 indep show ?thesis
      by (simp add: CoapPacket_new_def)
  next
    case s4
    then have "p = (header_packet buffer)\<lparr>token := replicate 8 0\<rparr>"
      using f by (simp add: parse_alt [of buffer p0])
    then have "p = CoapPacket_new\<lparr>type := CoapType_of_uint8 (drop_bit 4 (buffer ! 0) AND 0x03),
                                 token_length := buffer ! 0 AND 0x0F, code := buffer ! 1,
                                 message_id := push_bit 8 (ucast (buffer ! 2)) OR ucast (buffer ! 3)\<rparr>"
      by (simp add: header_packet_def CoapPacket_new_def)
    with s4 indep show ?thesis
      by (simp add: CoapPacket_new_def)
  next
    case s5
    have a: "4 \<le> length buffer" using s5(1) by simp
    have c: "buffer ! 0 AND 0x0F \<le> 8" using s5(3) by simp
    have t: "4 + unat (buffer ! 0 AND 0x0F) \<le> length buffer" using s5(5) by simp
    from parse_failure_prefix [OF fp a s5(2) c s5(4) t, of p1] obtain n where
      n1: "4 + unat (buffer ! 0 AND 0x0F) \<le> n" and n2: "n < length buffer"
      and n3: "stops_at buffer n" and n4: "parse (take n buffer) p1 = (OK, p)"
      and n5: "p = (header_packet buffer)\<lparr>options := options p\<rparr>"
      unfolding sp by blast
    have pl: "payload p = []" and ve: "version p = COAP_VERSION"
      by (subst n5, simp add: header_packet_def)+
    have mx: "\<forall>m q. n < m \<and> parse (take m buffer) p1 = (OK, q) \<longrightarrow> payload q \<noteq> []"
      using parse_longer_prefix [OF n4 pl n3] by blast
    have ex: "p = CoapPacket_new\<lparr>type := CoapType_of_uint8 (drop_bit 4 (buffer ! 0) AND 0x03),
                               token_length := buffer ! 0 AND 0x0F, code := buffer ! 1,
                               message_id := push_bit 8 (ucast (buffer ! 2)) OR ucast (buffer ! 3),
                               token := take (unat (buffer ! 0 AND 0x0F)) (drop 4 buffer)
                                          @ replicate (8 - unat (buffer ! 0 AND 0x0F)) 0,
                               options := options p\<rparr>"
      by (subst n5) (simp only: header_packet_fields)
    have "\<exists>n. 4 + unat (buffer ! 0 AND 0x0F) \<le> n \<and> n < length buffer \<and>
                 parse (take n buffer) p1 = (OK, p) \<and>
                 (\<forall>m q. n < m \<and> parse (take m buffer) p1 = (OK, q) \<longrightarrow> payload q \<noteq> [])"
      using n1 n2 n4 mx by blast
    with ex indep pl ve s5 show ?thesis
      by (simp only: if_False simp_thms)
  qed
qed

theorem parse_failure_packet_witness:
  "parse [0x40, 0x01, 0x00, 0x00, 0xB1, 0x61, 0x0E, 0x02, 0xFE] CoapPacket_new
     = (DATAGRAM_TOO_SHORT,
        CoapPacket_new\<lparr>code := GET, options := [\<lparr>number = 11, value = [0x61]\<rparr>]\<rparr>) \<and>
   parse [0x40, 0x01, 0x00, 0x00, 0xB1, 0x61, 0x0E, 0x02, 0xFE]
       (CoapPacket_new\<lparr>payload := [1, 2, 3]\<rparr>)
     = (DATAGRAM_TOO_SHORT,
        CoapPacket_new\<lparr>code := GET, options := [\<lparr>number = 11, value = [0x61]\<rparr>]\<rparr>) \<and>
   version (CoapPacket_new\<lparr>code := GET, options := [\<lparr>number = 11, value = [0x61]\<rparr>]\<rparr>)
     = COAP_VERSION \<and>
   payload (CoapPacket_new\<lparr>code := GET, options := [\<lparr>number = 11, value = [0x61]\<rparr>]\<rparr>) = []"
proof -
  have h: "parse [0x40, 0x01, 0x00, 0x00, 0xB1, 0x61, 0x0E, 0x02, 0xFE] CoapPacket_new
             = (DATAGRAM_TOO_SHORT,
                CoapPacket_new\<lparr>code := GET, options := [\<lparr>number = 11, value = [0x61]\<rparr>]\<rparr>)"
    by (simp add: parse_alt parse_finish_def parseOptions_def parseOptions_loop.simps
          decodeOptionDeltaLength_def COAP_VERSION_def getCodeClass_def isValidCodeClass_def
          PAYLOAD_MARKER_def MAX_OPTION_VALUE_SIZE_def header_packet_def CoapPacket_new_def
          memcpy_def GET_def CoapType_of_uint8_def)
  have e: "DATAGRAM_TOO_SHORT \<noteq> OK" by simp
  show ?thesis
    using h parse_failure_packet [OF h e, of "CoapPacket_new\<lparr>payload := [1, 2, 3]\<rparr>"]
    by blast
qed

text \<open>
  A partially populated packet is visible after a failure: the token length nibble 9 is
  rejected, and the caller's packet then holds the token length 9. A packet that held a
  payload before a failed call is the default packet afterwards.
\<close>

theorem parse_failure_visible:
  "fst (parse [0x49, 0x01, 0x00, 0x00] CoapPacket_new) = INVALID_TOKEN_LENGTH \<and>
   token_length (snd (parse [0x49, 0x01, 0x00, 0x00] CoapPacket_new)) = 9 \<and>
   token_length CoapPacket_new = 0 \<and>
   fst (parse [0x40, 0x01] ((CoapPacket_new)\<lparr>code := GET, payload := [1, 2, 3]\<rparr>))
     = DATAGRAM_TOO_SHORT \<and>
   snd (parse [0x40, 0x01] ((CoapPacket_new)\<lparr>code := GET, payload := [1, 2, 3]\<rparr>))
     = CoapPacket_new"
  by (simp add: parse_alt COAP_VERSION_def CoapPacket_new_def)

end
